theory Spec2Isabelle
  imports Complex_Main
begin

section \<open>Python values shared by the model\<close>

text \<open>
  Python's unbounded integers are \<open>int\<close>, its floats are idealised as \<open>real\<close>
  (no rounding, no infinities), strings are \<open>string\<close>. An exception is a value of
  \<open>exn\<close>; a function that can raise returns \<open>exn + 'a\<close> with \<open>Inl\<close> the exception.
  A method that mutates objects before it raises returns \<open>exn option\<close> next to the
  state it leaves behind.
\<close>

datatype exn = ValueError | ZeroDivisionError

type_synonym rgb = "int \<times> int \<times> int"

type_synonym date_tuple = "int \<times> int \<times> int"

type_synonym time_tuple = "int \<times> int \<times> int \<times> int \<times> int \<times> int \<times> int \<times> int"

definition LDR_THRESHOLD :: int where
  "LDR_THRESHOLD = 700"

definition CONSECUTIVE_READINGS_NEEDED :: int where
  "CONSECUTIVE_READINGS_NEEDED = 25"

definition ANIMATION_SPEED :: real where
  "ANIMATION_SPEED = 5 / 100"

definition COLOR_OFF :: rgb where
  "COLOR_OFF = (0, 0, 0)"

subsection \<open>Built-ins: \<open>str.strip\<close>, \<open>str.split\<close>, \<open>int\<close>, \<open>range\<close>, \<open>for\<close>\<close>

definition is_space :: "char \<Rightarrow> bool" where
  "is_space c = (c = CHR '' '' \<or> c = CHR 0x09 \<or> c = CHR 0x0A \<or> c = CHR 0x0B
                 \<or> c = CHR 0x0C \<or> c = CHR 0x0D)"

definition is_digit :: "char \<Rightarrow> bool" where
  "is_digit c = (48 \<le> (of_char c :: nat) \<and> (of_char c :: nat) \<le> 57)"

definition digit_value :: "char \<Rightarrow> int" where
  "digit_value c = int (of_char c) - 48"

definition digits_value :: "string \<Rightarrow> int" where
  "digits_value cs = foldl (\<lambda>acc c. 10 * acc + digit_value c) 0 cs"

text \<open>\<open>s.strip(chars)\<close>: the characters satisfying \<open>p\<close> are removed at both ends.\<close>

definition str_strip :: "(char \<Rightarrow> bool) \<Rightarrow> string \<Rightarrow> string" where
  "str_strip p s = rev (dropWhile p (rev (dropWhile p s)))"

text \<open>
  \<open>int(s)\<close> on a string: surrounding whitespace, an optional sign, then one or more
  ASCII decimal digits; anything else raises ValueError. (Digit-group underscores, which
  some Python implementations accept, are not modelled and count as malformed.)
\<close>

definition int_of_str :: "string \<Rightarrow> exn + int" where
  "int_of_str s =
     (let t = str_strip is_space s;
          (sign, body) = (case t of
                            c # r \<Rightarrow> if c = CHR ''-'' then (- 1, r)
                                     else if c = CHR ''+'' then (1, r) else (1, t)
                          | [] \<Rightarrow> (1, t))
      in if body \<noteq> [] \<and> list_all is_digit body then Inr (sign * digits_value body)
         else Inl ValueError)"

text \<open>\<open>s.split(sep)\<close> with a one-character separator.\<close>

fun split :: "char \<Rightarrow> string \<Rightarrow> string list" where
  "split sep [] = [[]]"
| "split sep (c # cs) =
     (if c = sep then [] # split sep cs
      else (case split sep cs of w # ws \<Rightarrow> (c # w) # ws | [] \<Rightarrow> [[c]]))"

text \<open>\<open>map(int, parts)\<close>, consumed by tuple unpacking: the first malformed part raises.\<close>

fun map_int :: "string list \<Rightarrow> exn + int list" where
  "map_int [] = Inr []"
| "map_int (p # ps) =
     (case int_of_str p of
        Inl e \<Rightarrow> Inl e
      | Inr n \<Rightarrow> (case map_int ps of Inl e \<Rightarrow> Inl e | Inr ns \<Rightarrow> Inr (n # ns)))"

text \<open>\<open>a, b = ...\<close> and \<open>a, b, c = ...\<close>: a wrong number of values raises ValueError.\<close>

definition unpack2 :: "exn + int list \<Rightarrow> exn + int \<times> int" where
  "unpack2 r = (case r of Inl e \<Rightarrow> Inl e | Inr [a, b] \<Rightarrow> Inr (a, b) | Inr _ \<Rightarrow> Inl ValueError)"

definition unpack3 :: "exn + int list \<Rightarrow> exn + int \<times> int \<times> int" where
  "unpack3 r =
     (case r of Inl e \<Rightarrow> Inl e | Inr [a, b, c] \<Rightarrow> Inr (a, b, c) | Inr _ \<Rightarrow> Inl ValueError)"

text \<open>\<open>range(a, b)\<close> and \<open>range(a, b, -1)\<close>.\<close>

definition py_range :: "int \<Rightarrow> int \<Rightarrow> int list" where
  "py_range a b = [a..b - 1]"

definition py_range_down :: "int \<Rightarrow> int \<Rightarrow> int list" where
  "py_range_down a b = rev [b + 1..a]"

text \<open>A \<open>for\<close> loop whose body updates a state and may raise: the loop stops at the
  first exception and leaves the state as the body left it.\<close>

fun for_each :: "('i \<Rightarrow> 's \<Rightarrow> exn option \<times> 's) \<Rightarrow> 'i list \<Rightarrow> 's \<Rightarrow> exn option \<times> 's" where
  "for_each body [] s = (None, s)"
| "for_each body (i # is) s =
     (case body i s of
        (Some e, s') \<Rightarrow> (Some e, s')
      | (None, s') \<Rightarrow> for_each body is s')"

text \<open>\<open>int(x)\<close> on a float truncates toward zero.\<close>

definition trunc :: "real \<Rightarrow> int" where
  "trunc x = (if 0 \<le> x then \<lfloor>x\<rfloor> else \<lceil>x\<rceil>)"

text \<open>\<open>x % y\<close> on floats: the result has the sign of \<open>y\<close>.\<close>

definition float_mod :: "real \<Rightarrow> real \<Rightarrow> real" where
  "float_mod x y = x - of_int \<lfloor>x / y\<rfloor> * y"

subsection \<open>The platform: MicroPython's \<open>time\<close> and \<open>random\<close> modules\<close>

text \<open>
  \<open>time.mktime\<close>, \<open>time.localtime(secs)\<close> and the random generator are built-ins of
  the platform, not code of this repository: they are parameters of the model. The
  generator is the infinite sequence of its raw draws; a position in it is threaded
  through every function that draws.
\<close>

record platform =
  mktime :: "time_tuple \<Rightarrow> int"
  localtime :: "int \<Rightarrow> time_tuple"
  draws :: "nat \<Rightarrow> nat"

text \<open>\<open>random.randrange(a, b)\<close> and \<open>random.choice([-1, 1])\<close>.\<close>

definition randrange :: "platform \<Rightarrow> int \<Rightarrow> int \<Rightarrow> nat \<Rightarrow> int \<times> nat" where
  "randrange p a b k = (a + int (draws p k) mod (b - a), Suc k)"

definition choice_sign :: "platform \<Rightarrow> nat \<Rightarrow> int \<times> nat" where
  "choice_sign p k = ([- 1, 1] ! (draws p k mod 2), Suc k)"

text \<open>\<open>time.ticks_diff(a, b)\<close>, as MicroPython documents it: the signed difference of
  two tick values in the ring of period \<open>2 ^ 30\<close>.\<close>

definition ticks_diff :: "int \<Rightarrow> int \<Rightarrow> int" where
  "ticks_diff a b = ((a - b + 2 ^ 29) mod 2 ^ 30) - 2 ^ 29"

section \<open>DateUtils\<close>

definition string_to_date_tuple :: "string \<Rightarrow> exn + date_tuple" where
  "string_to_date_tuple date_string = unpack3 (map_int (split CHR ''-'' date_string))"

definition string_to_datetime_tuple :: "string \<Rightarrow> exn + time_tuple" where
  "string_to_datetime_tuple date_string =
     (case unpack3 (map_int (split CHR ''-'' date_string)) of
        Inl e \<Rightarrow> Inl e
      | Inr (year, month, day) \<Rightarrow> Inr (year, month, day, 0, 0, 0, 0, 0))"

definition days_between :: "platform \<Rightarrow> date_tuple \<Rightarrow> string \<Rightarrow> exn + int" where
  "days_between p date1_tuple date2_string =
     (case date1_tuple of (y, m, d) \<Rightarrow>
        (let date1_seconds = mktime p (y, m, d, 0, 0, 0, 0, 0)
         in case string_to_datetime_tuple date2_string of
              Inl e \<Rightarrow> Inl e
            | Inr t \<Rightarrow> Inr ((mktime p t - date1_seconds) div 86400)))"

definition is_within_time_range :: "string \<Rightarrow> string \<Rightarrow> time_tuple \<Rightarrow> exn + bool" where
  "is_within_time_range start_time_str end_time_str current_time_tuple =
     (case unpack2 (map_int (split CHR '':'' start_time_str)) of
        Inl e \<Rightarrow> Inl e
      | Inr (start_hour, start_minute) \<Rightarrow>
     (case unpack2 (map_int (split CHR '':'' end_time_str)) of
        Inl e \<Rightarrow> Inl e
      | Inr (end_hour, end_minute) \<Rightarrow>
     (case current_time_tuple of (_, _, _, current_hour, current_minute, _) \<Rightarrow>
       (let start_minutes = start_hour * 60 + start_minute;
            end_minutes = end_hour * 60 + end_minute;
            current_minutes = current_hour * 60 + current_minute
        in if start_minutes \<le> end_minutes
           then Inr (start_minutes \<le> current_minutes \<and> current_minutes \<le> end_minutes)
           else Inr (current_minutes \<ge> start_minutes \<or> current_minutes \<le> end_minutes)))))"

definition adjust_time_with_offset :: "platform \<Rightarrow> time_tuple \<Rightarrow> int \<Rightarrow> time_tuple" where
  "adjust_time_with_offset p t hours_offset = localtime p (mktime p t + hours_offset * 3600)"

section \<open>ColorUtils\<close>

definition string_to_rgb :: "string \<Rightarrow> exn + rgb" where
  "string_to_rgb rgb_string =
     unpack3 (map_int (split CHR '','' (str_strip (\<lambda>c. c = CHR ''('' \<or> c = CHR '')'') rgb_string)))"

definition clamp :: "real \<Rightarrow> int \<Rightarrow> int \<Rightarrow> int" where
  "clamp v min_val max_val = max (min (trunc v) max_val) min_val"

definition random_base_color :: "platform \<Rightarrow> nat \<Rightarrow> (real \<times> real \<times> real) \<times> nat" where
  "random_base_color p k =
     (case randrange p 1 99 k of (a, k1) \<Rightarrow>
      case randrange p 1 99 k1 of (b, k2) \<Rightarrow>
      case randrange p 1 99 k2 of (c, k3) \<Rightarrow>
        ((of_int a / 100, of_int b / 100, of_int c / 100), k3))"

definition lighten :: "rgb \<Rightarrow> real \<Rightarrow> rgb" where
  "lighten color factor =
     (case color of (r, g, b) \<Rightarrow>
        (clamp (of_int r * factor) 0 255, clamp (of_int g * factor) 0 255,
         clamp (of_int b * factor) 0 255))"

section \<open>LightSensor\<close>

text \<open>
  The fields of class \<open>LightSensor\<close>. The ADC is a hardware driver: the value that
  \<open>self.adc.read_u16()\<close> returns is an argument of \<open>update\<close>.
\<close>

record light_sensor =
  threshold :: int
  consecutive_needed :: int
  consecutive_dark_count :: int
  consecutive_light_count :: int

definition LightSensor :: "int \<Rightarrow> int \<Rightarrow> light_sensor" where
  "LightSensor thr needed =
     \<lparr>threshold = thr, consecutive_needed = needed,
      consecutive_dark_count = 0, consecutive_light_count = 0\<rparr>"

text \<open>\<open>update\<close> returns \<open>(is_dark, consistent_dark, consistent_light)\<close> and the sensor
  with its counters updated.\<close>

definition update :: "light_sensor \<Rightarrow> int \<Rightarrow> (bool \<times> bool \<times> bool) \<times> light_sensor" where
  "update s reading =
     (let is_dark = reading > threshold s;
          s' = (if is_dark
                then s\<lparr>consecutive_dark_count := consecutive_dark_count s + 1,
                       consecutive_light_count := 0\<rparr>
                else s\<lparr>consecutive_light_count := consecutive_light_count s + 1,
                       consecutive_dark_count := 0\<rparr>);
          consistent_dark = consecutive_dark_count s' \<ge> consecutive_needed s';
          consistent_light = consecutive_light_count s' \<ge> consecutive_needed s'
      in ((is_dark, consistent_dark, consistent_light), s'))"

text \<open>Feeding a sequence of readings, one \<open>update\<close> call each: the sensor afterwards and
  the flags that the last call returned (\<open>None\<close> when no call was made).\<close>

fun feed :: "light_sensor \<Rightarrow> int list \<Rightarrow> (bool \<times> bool \<times> bool) option \<times> light_sensor" where
  "feed s [] = (None, s)"
| "feed s [r] = (case update s r of (out, s') \<Rightarrow> (Some out, s'))"
| "feed s (r # rs) = (case update s r of (out, s') \<Rightarrow> feed s' rs)"

definition consistent_dark_of :: "(bool \<times> bool \<times> bool) option \<times> light_sensor \<Rightarrow> bool option" where
  "consistent_dark_of res = map_option (\<lambda>(is_dark, cd, cl). cd) (fst res)"

definition consistent_light_of :: "(bool \<times> bool \<times> bool) option \<times> light_sensor \<Rightarrow> bool option" where
  "consistent_light_of res = map_option (\<lambda>(is_dark, cd, cl). cl) (fst res)"

section \<open>LEDStripController\<close>

text \<open>
  \<open>np\<close> is the NeoPixel buffer; \<open>shown\<close> is what the strip displays, that is the
  buffer as it was at the last \<open>np.write()\<close>. \<open>num_pixels\<close> is set once, to the
  length of the buffer, and never reassigned: the model reads it off the buffer.
  The buffer holds the colour tuples as they were stored; the driver's byte encoding is
  outside the model.
\<close>

record led_controller =
  np :: "rgb list"
  shown :: "rgb list"

definition LEDStripController :: "nat \<Rightarrow> led_controller" where
  "LEDStripController n = \<lparr>np = replicate n COLOR_OFF, shown = replicate n COLOR_OFF\<rparr>"

definition num_pixels :: "led_controller \<Rightarrow> int" where
  "num_pixels l = int (length (np l))"

definition write_strip :: "led_controller \<Rightarrow> led_controller" where
  "write_strip l = l\<lparr>shown := np l\<rparr>"

definition clear :: "led_controller \<Rightarrow> led_controller" where
  "clear l = write_strip (l\<lparr>np := replicate (length (np l)) COLOR_OFF\<rparr>)"

definition set_pixel :: "led_controller \<Rightarrow> int \<Rightarrow> rgb \<Rightarrow> led_controller" where
  "set_pixel l index color =
     (if 0 \<le> index \<and> index < num_pixels l then l\<lparr>np := (np l)[nat index := color]\<rparr> else l)"

definition get_pixel :: "led_controller \<Rightarrow> int \<Rightarrow> rgb" where
  "get_pixel l index = (if 0 \<le> index \<and> index < num_pixels l then np l ! nat index else COLOR_OFF)"

section \<open>EventSettings and CountdownState\<close>

record event_settings =
  important_date :: string
  start_from_day :: string
  primary_color :: string
  secondary_color :: string
  use_custom_colors :: bool
  start_time :: string
  end_time :: string
  from_pi :: bool
  is_reverse :: bool
  with_marker :: bool
  marker_color :: string
  flash_speed :: real
  auto_update :: bool
  update_branch :: string

record countdown_state =
  current_date :: date_tuple
  settings :: event_settings
  days_remaining :: int
  countdown_length :: int
  base_color :: "real \<times> real \<times> real"
  animation_phase :: real
  is_flashing :: bool
  swap_phase :: bool
  last_swap_ms :: int

definition calculate_days_remaining :: "platform \<Rightarrow> date_tuple \<Rightarrow> event_settings \<Rightarrow> exn + int" where
  "calculate_days_remaining p cur stg = days_between p cur (important_date stg)"

definition calculate_countdown_length :: "platform \<Rightarrow> event_settings \<Rightarrow> exn + int" where
  "calculate_countdown_length p stg =
     (case string_to_date_tuple (start_from_day stg) of
        Inl e \<Rightarrow> Inl e
      | Inr start_date \<Rightarrow>
          (case days_between p start_date (important_date stg) of
             Inl e \<Rightarrow> Inl e
           | Inr n \<Rightarrow> Inr \<bar>n\<bar>))"

text \<open>
  The constructor. \<open>ticks\<close> is what \<open>time.ticks_ms()\<close> returns, \<open>None\<close> when it
  raises; \<open>k\<close> is the position in the random draws, returned advanced.
\<close>

definition CountdownState ::
  "platform \<Rightarrow> int option \<Rightarrow> date_tuple \<Rightarrow> event_settings \<Rightarrow> nat \<Rightarrow> exn + countdown_state \<times> nat" where
  "CountdownState p ticks cur stg k =
     (case calculate_days_remaining p cur stg of
        Inl e \<Rightarrow> Inl e
      | Inr dr \<Rightarrow>
     (case calculate_countdown_length p stg of
        Inl e \<Rightarrow> Inl e
      | Inr len \<Rightarrow>
     (case random_base_color p k of (base, k') \<Rightarrow>
        Inr (\<lparr>current_date = cur, settings = stg, days_remaining = dr, countdown_length = len,
              base_color = base, animation_phase = 0, is_flashing = True, swap_phase = False,
              last_swap_ms = (case ticks of Some t \<Rightarrow> t | None \<Rightarrow> 0)\<rparr>, k'))))"

definition update_animation_phase :: "countdown_state \<Rightarrow> countdown_state" where
  "update_animation_phase st =
     st\<lparr>animation_phase := float_mod (animation_phase st + ANIMATION_SPEED) (2 * pi)\<rparr>"

text \<open>
  \<open>ticks\<close> is what \<open>time.ticks_ms()\<close> returns, \<open>None\<close> when it raises and the
  \<open>except\<close> branch runs; \<open>clock\<close> is what \<open>time.localtime()\<close> returns there.
\<close>

definition update_flash_phase :: "int option \<Rightarrow> time_tuple \<Rightarrow> countdown_state \<Rightarrow> countdown_state" where
  "update_flash_phase ticks clock st =
     (case ticks of
        Some now \<Rightarrow>
          (let interval_ms = trunc (flash_speed (settings st) * 1000);
               interval_ms = (if interval_ms \<le> 0 then 2000 else interval_ms)
           in if ticks_diff now (last_swap_ms st) \<ge> interval_ms
              then st\<lparr>swap_phase := \<not> swap_phase st, last_swap_ms := now\<rparr>
              else st)
      | None \<Rightarrow>
          (case clock of (_, _, _, _, _, sec, _) \<Rightarrow>
             st\<lparr>swap_phase := ((sec div max 1 (trunc (flash_speed (settings st)))) mod 2 = 1)\<rparr>))"

section \<open>AnimationEngine\<close>

text \<open>
  The engine holds the LED controller and the countdown state. A render threads the
  pair of the controller and the position in the random draws. \<open>call\<close> names the
  methods a call runs, in order.
\<close>

datatype call = CallRenderCountdown | CallRenderBreathing | CallWrite | CallClear | CallRefresh

type_synonym rstate = "led_controller \<times> nat"

text \<open>The pixel range \<open>(block_min, block_max)\<close> of a day block.\<close>

definition block_span :: "bool \<Rightarrow> int \<Rightarrow> int \<Rightarrow> int \<Rightarrow> int \<Rightarrow> int \<times> int" where
  "block_span frompi n len block_size day_index =
     (if \<not> frompi
      then (let block_max = n - (len - day_index) * block_size;
                block_min = (if day_index > 1 then block_max - block_size else 0)
            in (block_min, block_max))
      else (let block_min = (len - day_index) * block_size;
                block_max = (if day_index > 1 then block_min + block_size else n)
            in (block_min, block_max)))"

text \<open>Whether the block of a day is lightened in this frame.\<close>

definition flashes :: "int \<Rightarrow> bool \<Rightarrow> bool" where
  "flashes flashing_group is_primary_block =
     ((flashing_group = 0 \<and> is_primary_block) \<or> (flashing_group = 1 \<and> \<not> is_primary_block))"

definition primary_block :: "countdown_state \<Rightarrow> int \<Rightarrow> bool" where
  "primary_block st day_index =
     (let is_primary_block = (day_index mod 2 = 0)
      in if swap_phase st then \<not> is_primary_block else is_primary_block)"

text \<open>The body of the loop over the pixels of a block.\<close>

definition fill_pixel ::
  "platform \<Rightarrow> countdown_state \<Rightarrow> int \<Rightarrow> real \<Rightarrow> int \<Rightarrow> int \<Rightarrow> rstate \<Rightarrow> exn option \<times> rstate" where
  "fill_pixel p st flashing_group lighten_factor day_index pixel s =
     (case s of (l, k) \<Rightarrow>
      if use_custom_colors (settings st)
      then (let is_primary_block = primary_block st day_index
            in case (if is_primary_block then string_to_rgb (primary_color (settings st))
                     else string_to_rgb (secondary_color (settings st))) of
                 Inl e \<Rightarrow> (Some e, (l, k))
               | Inr color \<Rightarrow>
                   (let color = (if is_flashing st \<and> flashes flashing_group is_primary_block
                                 then lighten color lighten_factor else color)
                    in (None, (set_pixel l pixel color, k))))
      else (case choice_sign p k of (c1, k1) \<Rightarrow>
            case choice_sign p k1 of (c2, k2) \<Rightarrow>
            case get_pixel l pixel of (r, g, b) \<Rightarrow>
              (let variation_1 = ((countdown_length st + 1) - day_index) * c1;
                   variation_2 = ((countdown_length st + 1) - day_index) * c2;
                   color = (clamp (of_int (r + variation_1)) 0 255,
                            clamp (of_int (g - variation_1)) 0 255,
                            clamp (of_int (b + variation_2)) 0 255);
                   color = (if is_flashing st \<and> flashes flashing_group (primary_block st day_index)
                            then lighten color lighten_factor else color)
               in (None, (set_pixel l pixel color, k2)))))"

text \<open>The body of the loop over the blocks that places the markers.\<close>

definition block_start :: "bool \<Rightarrow> int \<Rightarrow> int \<Rightarrow> int \<Rightarrow> int" where
  "block_start frompi n block_size block =
     (if \<not> frompi then n - (block + 1) * block_size else block * block_size)"

definition mark_block ::
  "countdown_state \<Rightarrow> int \<Rightarrow> int \<Rightarrow> int \<Rightarrow> int \<Rightarrow> rstate \<Rightarrow> exn option \<times> rstate" where
  "mark_block st block_size block_min block_max block s =
     (case s of (l, k) \<Rightarrow>
      (let bs = block_start (from_pi (settings st)) (num_pixels l) block_size block
       in if bs < block_min \<or> bs \<ge> block_max
          then (case string_to_rgb (marker_color (settings st)) of
                  Inl e \<Rightarrow> (Some e, (l, k))
                | Inr marker_rgb \<Rightarrow> (None, (set_pixel l bs marker_rgb, k)))
          else (None, (l, k))))"

text \<open>The body of the loop over the days: fill the block, then place the markers.\<close>

definition draw_day ::
  "platform \<Rightarrow> countdown_state \<Rightarrow> int \<Rightarrow> real \<Rightarrow> int \<Rightarrow> int \<Rightarrow> rstate \<Rightarrow> exn option \<times> rstate" where
  "draw_day p st flashing_group lighten_factor block_size day_index s =
     (case block_span (from_pi (settings st)) (num_pixels (fst s)) (countdown_length st)
             block_size day_index of
        (block_min, block_max) \<Rightarrow>
          (case for_each (fill_pixel p st flashing_group lighten_factor day_index)
                  (py_range block_min block_max) s of
             (Some e, s') \<Rightarrow> (Some e, s')
           | (None, s') \<Rightarrow>
               if with_marker (settings st)
               then for_each (mark_block st block_size block_min block_max)
                      (py_range 0 (countdown_length st)) s'
               else (None, s')))"

definition day_range :: "countdown_state \<Rightarrow> int list" where
  "day_range st =
     (if \<not> is_reverse (settings st)
      then py_range_down (countdown_length st) (days_remaining st - 1)
      else py_range_down (days_remaining st - 1) (- 1))"

definition lighten_factor_of :: "real \<Rightarrow> real" where
  "lighten_factor_of phase =
     (let raw = (sin phase + 1) / 2;
          pulse = raw * raw * (3 - 2 * raw)
      in 1 + 35 / 100 * pulse)"

definition render_countdown :: "platform \<Rightarrow> countdown_state \<Rightarrow> rstate \<Rightarrow> exn option \<times> rstate" where
  "render_countdown p st s =
     (let phase = animation_phase st;
          flashing_group = (if sin phase \<ge> 0 then 0 else 1);
          lighten_factor = lighten_factor_of phase
      in if countdown_length st = 0 then (Some ZeroDivisionError, s)
         else (let block_size = num_pixels (fst s) div countdown_length st
               in for_each (draw_day p st flashing_group lighten_factor block_size)
                    (day_range st) s))"

text \<open>The colour the breathing animation gives the \<open>i\<close>-th pixel it visits.\<close>

definition breathing_color :: "countdown_state \<Rightarrow> int \<Rightarrow> int \<Rightarrow> rgb" where
  "breathing_color st n i =
     (case base_color st of (base_r, base_g, base_b) \<Rightarrow>
        (let phase = animation_phase st;
             brightness = 32 * (1 + 4 * (sin (phase + pi) + 1))
                          * exp (- ((of_int n / 2 - of_int i) ^ 2) / (1 + 20 * (sin phase + 1)) ^ 2)
         in (clamp (base_r * brightness) 0 255, clamp (base_g * brightness) 0 255,
             clamp (base_b * brightness) 0 255)))"

definition breathing_pixel :: "countdown_state \<Rightarrow> led_controller \<Rightarrow> int \<Rightarrow> led_controller" where
  "breathing_pixel st l i =
     (let pixel_index = (if from_pi (settings st) then num_pixels l - 1 - i else i)
      in set_pixel l pixel_index (breathing_color st (num_pixels l) i))"

definition render_breathing :: "countdown_state \<Rightarrow> led_controller \<Rightarrow> led_controller" where
  "render_breathing st l = foldl (breathing_pixel st) l (py_range 0 (num_pixels l))"

text \<open>\<open>render\<close>: the exception if one was raised, the methods called, the controller and
  the position in the random draws afterwards.\<close>

definition render :: "platform \<Rightarrow> countdown_state \<Rightarrow> rstate \<Rightarrow> exn option \<times> call list \<times> rstate" where
  "render p st s =
     (if days_remaining st \<le> countdown_length st
      then (case render_countdown p st s of
              (Some e, s') \<Rightarrow> (Some e, [CallRenderCountdown], s')
            | (None, (l', k')) \<Rightarrow> (None, [CallRenderCountdown, CallWrite], (write_strip l', k')))
      else (None, [CallRenderBreathing, CallWrite], (write_strip (render_breathing st (fst s)), snd s)))"

section \<open>CountdownApplication\<close>

text \<open>
  The application after \<open>startup\<close>: the animation engine refers to the same LED
  controller and the same countdown state as the application does, at startup and
  after every refresh, so the model keeps one copy of each.
\<close>

record app =
  led :: led_controller
  sensor :: light_sensor
  state :: countdown_state
  timezone_offset :: int
  iteration_count :: int
  rng_pos :: nat

text \<open>What one iteration of the main loop reads from outside: the ADC, \<open>time.ticks_ms()\<close>
  in \<open>update_flash_phase\<close> and in the constructor that a refresh runs (\<open>None\<close> when
  it raises), \<open>time.localtime()\<close> in \<open>update_flash_phase\<close> and in the iteration itself, and what \<open>TimeAPI.get_local_date\<close> and
  \<open>SettingsAPI.fetch_settings\<close> return to a refresh (\<open>None\<close> on failure).\<close>

record inputs =
  adc_reading :: int
  ticks_ms :: "int option"
  refresh_ticks_ms :: "int option"
  flash_clock :: time_tuple
  clock :: time_tuple
  local_date :: "date_tuple option"
  fetched :: "event_settings option"

definition refresh_settings :: "platform \<Rightarrow> inputs \<Rightarrow> app \<Rightarrow> exn option \<times> app" where
  "refresh_settings p inp a =
     (case local_date inp of
        None \<Rightarrow> (None, a)
      | Some cur \<Rightarrow>
     (case fetched inp of
        None \<Rightarrow> (None, a)
      | Some stg \<Rightarrow>
     (case CountdownState p (refresh_ticks_ms inp) cur stg (rng_pos a) of
        Inl e \<Rightarrow> (Some e, a)
      | Inr (st, k) \<Rightarrow> (None, a\<lparr>state := st, rng_pos := k\<rparr>))))"

definition main_loop_iteration :: "platform \<Rightarrow> inputs \<Rightarrow> app \<Rightarrow> exn option \<times> call list \<times> app" where
  "main_loop_iteration p inp a =
     (let st = update_flash_phase (ticks_ms inp) (flash_clock inp) (update_animation_phase (state a))
      in case update (sensor a) (adc_reading inp) of
           ((is_dark, consistent_dark, consistent_light), sensor') \<Rightarrow>
      (let a1 = a\<lparr>state := st, sensor := sensor'\<rparr>;
           adjusted_time = adjust_time_with_offset p (clock inp) (timezone_offset a)
       in case is_within_time_range (start_time (settings st)) (end_time (settings st)) adjusted_time of
            Inl e \<Rightarrow> (Some e, [], a1)
          | Inr in_time_range \<Rightarrow>
       (case (if in_time_range
              then (if consistent_dark
                    then (case render p st (led a1, rng_pos a1) of
                            (r, calls, (l', k')) \<Rightarrow> (r, calls, a1\<lparr>led := l', rng_pos := k'\<rparr>))
                    else if consistent_light then (None, [CallClear], a1\<lparr>led := clear (led a1)\<rparr>)
                    else (None, [], a1))
              else (None, [CallClear], a1\<lparr>led := clear (led a1)\<rparr>)) of
          (Some e, calls, a2) \<Rightarrow> (Some e, calls, a2)
        | (None, calls, a2) \<Rightarrow>
            (case (if consistent_light \<and> in_time_range
                   then (case refresh_settings p inp a2 of (r, a3) \<Rightarrow> (r, calls @ [CallRefresh], a3))
                   else (None, calls, a2)) of
               (Some e, calls', a3) \<Rightarrow> (Some e, calls', a3)
             | (None, calls', a3) \<Rightarrow>
                 (None, calls', a3\<lparr>iteration_count := iteration_count a3 + 1\<rparr>)))))"

section \<open>A concrete platform\<close>

text \<open>
  One platform on which to run the model: seconds since 1970-01-01 of the proleptic
  Gregorian calendar, and a generator whose draws alternate.
\<close>

definition days_from_civil :: "int \<Rightarrow> int \<Rightarrow> int \<Rightarrow> int" where
  "days_from_civil y m d =
     (let y' = (if m \<le> 2 then y - 1 else y);
          era = y' div 400;
          yoe = y' - era * 400;
          doy = (153 * (if m > 2 then m - 3 else m + 9) + 2) div 5 + d - 1;
          doe = yoe * 365 + yoe div 4 - yoe div 100 + doy
      in era * 146097 + doe - 719468)"

definition civil_from_days :: "int \<Rightarrow> int \<times> int \<times> int" where
  "civil_from_days z0 =
     (let z = z0 + 719468;
          era = z div 146097;
          doe = z - era * 146097;
          yoe = (doe - doe div 1460 + doe div 36524 - doe div 146096) div 365;
          doy = doe - (365 * yoe + yoe div 4 - yoe div 100);
          mp = (5 * doy + 2) div 153;
          d = doy - (153 * mp + 2) div 5 + 1;
          m = (if mp < 10 then mp + 3 else mp - 9);
          y = yoe + era * 400
      in (if m \<le> 2 then y + 1 else y, m, d))"

definition mktime_1970 :: "time_tuple \<Rightarrow> int" where
  "mktime_1970 t =
     (case t of (y, m, d, hh, mm, ss, _) \<Rightarrow> days_from_civil y m d * 86400 + hh * 3600 + mm * 60 + ss)"

definition localtime_1970 :: "int \<Rightarrow> time_tuple" where
  "localtime_1970 secs =
     (let days = secs div 86400; r = secs mod 86400
      in case civil_from_days days of (y, m, d) \<Rightarrow>
           (y, m, d, r div 3600, (r mod 3600) div 60, r mod 60, (days + 3) mod 7,
            days - days_from_civil y 1 1 + 1))"

definition pico :: platform where
  "pico = \<lparr>mktime = mktime_1970, localtime = localtime_1970, draws = (\<lambda>k. k)\<rparr>"

section \<open>Well-formed inputs and times of day\<close>

text \<open>A well-formed "HH:MM" string: two digits, a colon, two digits, the hour below 24
  and the minute below 60. \<open>time_of_day\<close> reads its hour and minute, and \<open>time_le\<close>
  orders times of day.\<close>

fun wf_hhmm :: "string \<Rightarrow> bool" where
  "wf_hhmm [a, b, c, d, e] =
     (is_digit a \<and> is_digit b \<and> c = CHR '':'' \<and> is_digit d \<and> is_digit e
      \<and> 10 * digit_value a + digit_value b < 24 \<and> 10 * digit_value d + digit_value e < 60)"
| "wf_hhmm _ = False"

fun time_of_day :: "string \<Rightarrow> int \<times> int" where
  "time_of_day [a, b, c, d, e] =
     (10 * digit_value a + digit_value b, 10 * digit_value d + digit_value e)"
| "time_of_day _ = (0, 0)"

fun time_le :: "int \<times> int \<Rightarrow> int \<times> int \<Rightarrow> bool" where
  "time_le (h1, m1) (h2, m2) = (h1 < h2 \<or> (h1 = h2 \<and> m1 \<le> m2))"


section \<open>Concrete inputs\<close>

text \<open>A ten-day countdown to 2025-12-25, and its state on the day after the target,
  as the constructor builds it.\<close>

definition stg_ten :: event_settings where
  "stg_ten =
     \<lparr>important_date = ''2025-12-25'', start_from_day = ''2025-12-15'',
      primary_color = ''(255,0,0)'', secondary_color = ''(0,255,0)'', use_custom_colors = True,
      start_time = ''22:00'', end_time = ''06:00'', from_pi = False, is_reverse = False,
      with_marker = True, marker_color = ''(255,255,255)'', flash_speed = 2,
      auto_update = True, update_branch = ''main''\<rparr>"

definition st_past :: countdown_state where
  "st_past =
     \<lparr>current_date = (2025, 12, 26), settings = stg_ten, days_remaining = - 1,
      countdown_length = 10, base_color = (1 / 100, 2 / 100, 3 / 100), animation_phase = 0,
      is_flashing = True, swap_phase = False, last_swap_ms = 0\<rparr>"

text \<open>A three-day countdown on a strip of six pixels, two days before the target.\<close>

definition stg_three :: event_settings where
  "stg_three = stg_ten\<lparr>start_from_day := ''2025-12-22''\<rparr>"

definition st_three :: countdown_state where
  "st_three =
     \<lparr>current_date = (2025, 12, 23), settings = stg_three, days_remaining = 2,
      countdown_length = 3, base_color = (1 / 100, 2 / 100, 3 / 100), animation_phase = 0,
      is_flashing = True, swap_phase = False, last_swap_ms = 0\<rparr>"

definition strip_off :: led_controller where
  "strip_off = LEDStripController 6"

definition strip_lit :: led_controller where
  "strip_lit = strip_off\<lparr>np := (np strip_off)[1 := (9, 9, 9)]\<rparr>"


text \<open>The application five hours west of UTC, and three iterations' inputs: at noon
  local time, at 23:30 local time in the dark, and at 23:30 local time after 24 light
  readings with new settings whose start day is the target day.\<close>

definition app_three :: app where
  "app_three =
     \<lparr>led = strip_lit, sensor = LightSensor LDR_THRESHOLD CONSECUTIVE_READINGS_NEEDED,
      state = st_three, timezone_offset = - 5, iteration_count = 0, rng_pos = 3\<rparr>"

definition stg_zero :: event_settings where
  "stg_zero = stg_ten\<lparr>start_from_day := ''2025-12-25''\<rparr>"

definition inp_noon :: inputs where
  "inp_noon =
     \<lparr>adc_reading = 1000, ticks_ms = Some 100, refresh_ticks_ms = Some 100,
      flash_clock = (2025, 12, 23, 17, 0, 0, 1, 357), clock = (2025, 12, 23, 17, 0, 0, 1, 357),
      local_date = Some (2025, 12, 23), fetched = Some stg_zero\<rparr>"

definition inp_night :: inputs where
  "inp_night =
     inp_noon\<lparr>flash_clock := (2025, 12, 24, 4, 30, 0, 2, 358), clock := (2025, 12, 24, 4, 30, 0, 2, 358)\<rparr>"

text \<open>The same countdown five days before the target, that is before its start day.\<close>

definition st_early :: countdown_state where
  "st_early = st_three\<lparr>current_date := (2025, 12, 20), days_remaining := 5\<rparr>"

text \<open>The same countdown on its start day, three days before the target, without custom
  colours and in the swapped flash phase; and a strip whose buffer is grey.\<close>

definition st_plain :: countdown_state where
  "st_plain =
     st_three\<lparr>current_date := (2025, 12, 22),
       settings := stg_three\<lparr>use_custom_colors := False\<rparr>, days_remaining := 3,
       swap_phase := True\<rparr>"

definition strip_grey :: led_controller where
  "strip_grey = strip_off\<lparr>np := replicate 6 (100, 100, 100)\<rparr>"

section \<open>Properties of the light sensor\<close>

lemma update_fields [simp]:
  "threshold (snd (update s r)) = threshold s"
  "consecutive_needed (snd (update s r)) = consecutive_needed s"
  by (simp_all add: update_def Let_def)

lemma feed_snoc:
  "feed s (rs @ [r]) = (case update (snd (feed s rs)) r of (out, s') \<Rightarrow> (Some out, s'))"
proof (induction s rs rule: feed.induct)
  case (1 s)
  show ?case by simp
next
  case (2 s r')
  show ?case by (simp split: prod.splits)
next
  case (3 s r' v va)
  then show ?case by (simp split: prod.splits)
qed

lemma snd_feed_Cons: "snd (feed s (r # rs)) = snd (feed (snd (update s r)) rs)"
  by (cases rs) (simp_all split: prod.splits)

lemma feed_dark_state:
  "\<forall>r \<in> set rs. r > threshold s \<Longrightarrow>
   snd (feed s rs) =
     (if rs = [] then s
      else s\<lparr>consecutive_dark_count := consecutive_dark_count s + int (length rs),
             consecutive_light_count := 0\<rparr>)"
proof (induction rs arbitrary: s)
  case Nil
  show ?case by simp
next
  case (Cons r rs)
  have dark: "r > threshold s" using Cons.prems by simp
  let ?s' = "snd (update s r)"
  have s': "?s' = s\<lparr>consecutive_dark_count := consecutive_dark_count s + 1,
      consecutive_light_count := 0\<rparr>"
    using dark by (simp add: update_def Let_def)
  have "\<forall>x \<in> set rs. x > threshold ?s'" using Cons.prems by simp
  from Cons.IH[OF this] show ?case
    by (simp add: snd_feed_Cons s')
qed

text \<open>
  C6. Starting from a freshly constructed sensor (any threshold, any count needed), after
  any sequence of \<open>update\<close> calls at most one of the two counters is nonzero.
\<close>

theorem at_most_one_counter_nonzero:
  "consecutive_dark_count (snd (feed (LightSensor thr needed) rs)) = 0
   \<or> consecutive_light_count (snd (feed (LightSensor thr needed) rs)) = 0"
proof (cases rs rule: rev_cases)
  case Nil
  then show ?thesis by (simp add: LightSensor_def)
next
  case (snoc rs' r)
  then show ?thesis
    by (simp add: feed_snoc update_def Let_def split: prod.splits)
qed

text \<open>
  C5. A fresh sensor with threshold 700 and 25 readings needed: after 24 dark readings
  (above the threshold) and one light reading (at or below it) the last call returns
  consistent_dark = False; after 25 dark readings the last call returns
  consistent_dark = True; one light reading right after them returns
  consistent_dark = False and consistent_light = False.
\<close>

theorem debounce_threshold_25:
  assumes "length ds = 24" and "\<forall>r \<in> set ds. r > LDR_THRESHOLD"
    and "d > LDR_THRESHOLD" and "l \<le> LDR_THRESHOLD"
  shows "consistent_dark_of (feed (LightSensor LDR_THRESHOLD CONSECUTIVE_READINGS_NEEDED) (ds @ [l]))
           = Some False
       \<and> consistent_dark_of (feed (LightSensor LDR_THRESHOLD CONSECUTIVE_READINGS_NEEDED) (ds @ [d]))
           = Some True
       \<and> consistent_dark_of (feed (LightSensor LDR_THRESHOLD CONSECUTIVE_READINGS_NEEDED) ((ds @ [d]) @ [l]))
           = Some False
       \<and> consistent_light_of (feed (LightSensor LDR_THRESHOLD CONSECUTIVE_READINGS_NEEDED) ((ds @ [d]) @ [l]))
           = Some False"
proof -
  let ?s0 = "LightSensor LDR_THRESHOLD CONSECUTIVE_READINGS_NEEDED"
  have thr: "threshold ?s0 = LDR_THRESHOLD" by (simp add: LightSensor_def)
  have ne: "ds \<noteq> []" using assms(1) by auto
  have s24: "snd (feed ?s0 ds) = ?s0\<lparr>consecutive_dark_count := 24, consecutive_light_count := 0\<rparr>"
    using feed_dark_state[of ds ?s0] assms(1,2) ne thr by (simp add: LightSensor_def)
  have all25: "\<forall>r \<in> set (ds @ [d]). r > threshold ?s0"
    using assms(2,3) thr by auto
  have s25: "snd (feed ?s0 (ds @ [d])) = ?s0\<lparr>consecutive_dark_count := 25, consecutive_light_count := 0\<rparr>"
    using feed_dark_state[OF all25] assms(1) by (simp add: LightSensor_def)
  have a: "consistent_dark_of (feed ?s0 (ds @ [l])) = Some False"
    using assms(4)
    by (simp only: feed_snoc[of ?s0 ds] s24)
       (simp add: consistent_dark_of_def update_def Let_def LightSensor_def
        CONSECUTIVE_READINGS_NEEDED_def)
  have b: "consistent_dark_of (feed ?s0 (ds @ [d])) = Some True"
    using assms(3)
    by (simp only: feed_snoc[of ?s0 ds] s24)
       (simp add: consistent_dark_of_def update_def Let_def LightSensor_def
        CONSECUTIVE_READINGS_NEEDED_def)
  have c: "consistent_dark_of (feed ?s0 ((ds @ [d]) @ [l])) = Some False"
    using assms(4)
    by (simp only: feed_snoc[of ?s0 "ds @ [d]" l] s25)
       (simp add: consistent_dark_of_def update_def Let_def LightSensor_def
        CONSECUTIVE_READINGS_NEEDED_def)
  have e: "consistent_light_of (feed ?s0 ((ds @ [d]) @ [l])) = Some False"
    using assms(4)
    by (simp only: feed_snoc[of ?s0 "ds @ [d]" l] s25)
       (simp add: consistent_light_of_def update_def Let_def LightSensor_def
        CONSECUTIVE_READINGS_NEEDED_def)
  from a b c e show ?thesis by blast
qed

theorem debounce_threshold_25_witness:
  "length (replicate 24 (1000::int)) = 24
   \<and> list_all (\<lambda>r. r > LDR_THRESHOLD) (replicate 24 (1000::int))
   \<and> (1000::int) > LDR_THRESHOLD \<and> (100::int) \<le> LDR_THRESHOLD
   \<and> consistent_dark_of (feed (LightSensor LDR_THRESHOLD CONSECUTIVE_READINGS_NEEDED)
        (replicate 24 1000 @ [100])) = Some False
   \<and> consistent_dark_of (feed (LightSensor LDR_THRESHOLD CONSECUTIVE_READINGS_NEEDED)
        (replicate 24 1000 @ [1000])) = Some True
   \<and> consistent_dark_of (feed (LightSensor LDR_THRESHOLD CONSECUTIVE_READINGS_NEEDED)
        ((replicate 24 1000 @ [1000]) @ [100])) = Some False
   \<and> consistent_light_of (feed (LightSensor LDR_THRESHOLD CONSECUTIVE_READINGS_NEEDED)
        ((replicate 24 1000 @ [1000]) @ [100])) = Some False"
proof -
  have h1: "length (replicate 24 (1000::int)) = 24" by simp
  have h2: "\<forall>r \<in> set (replicate 24 (1000::int)). r > LDR_THRESHOLD"
    by (simp add: LDR_THRESHOLD_def)
  have h3: "(1000::int) > LDR_THRESHOLD" by (simp add: LDR_THRESHOLD_def)
  have h4: "(100::int) \<le> LDR_THRESHOLD" by (simp add: LDR_THRESHOLD_def)
  have h2': "list_all (\<lambda>r. r > LDR_THRESHOLD) (replicate 24 (1000::int))"
    using h2 by (simp add: list_all_iff)
  from debounce_threshold_25[OF h1 h2 h3 h4] h1 h2' h3 h4 show ?thesis by blast
qed

section \<open>Parsing well-formed strings\<close>

lemma is_digit_not:
  "is_digit c \<Longrightarrow> c \<noteq> CHR '':'' \<and> c \<noteq> CHR ''-'' \<and> c \<noteq> CHR ''+'' \<and> \<not> is_space c"
  by (auto simp: is_digit_def is_space_def)

lemma digit_value_range: "is_digit c \<Longrightarrow> 0 \<le> digit_value c \<and> digit_value c \<le> 9"
  by (auto simp: is_digit_def digit_value_def)

lemma int_of_str_two_digits:
  "is_digit a \<Longrightarrow> is_digit b \<Longrightarrow> int_of_str [a, b] = Inr (10 * digit_value a + digit_value b)"
  using is_digit_not[of a] is_digit_not[of b]
  by (simp add: int_of_str_def str_strip_def digits_value_def)

lemma wf_hhmm_cases:
  assumes "wf_hhmm s"
  obtains a b d e where "s = [a, b, CHR '':'', d, e]"
    "is_digit a" "is_digit b" "is_digit d" "is_digit e"
    "10 * digit_value d + digit_value e < 60"
  using assms by (cases s rule: wf_hhmm.cases) auto

lemma parse_hhmm:
  assumes "wf_hhmm s"
  shows "unpack2 (map_int (split CHR '':'' s)) = Inr (time_of_day s)"
proof -
  from assms obtain a b d e where s: "s = [a, b, CHR '':'', d, e]"
    and dg: "is_digit a" "is_digit b" "is_digit d" "is_digit e"
    by (rule wf_hhmm_cases)
  have sp: "split CHR '':'' s = [[a, b], [d, e]]"
    using dg is_digit_not[of a] is_digit_not[of b] is_digit_not[of d] is_digit_not[of e]
    by (simp add: s)
  have tod: "time_of_day s = (10 * digit_value a + digit_value b, 10 * digit_value d + digit_value e)"
    by (simp add: s)
  show ?thesis
    unfolding sp tod by (simp add: int_of_str_two_digits dg unpack2_def)
qed

lemma minutes_le_iff:
  assumes "0 \<le> m1" "m1 < 60" "0 \<le> m2" "m2 < (60::int)"
  shows "h1 * 60 + m1 \<le> h2 * 60 + m2 \<longleftrightarrow> time_le (h1, m1) (h2, m2)"
  using assms by auto

lemma time_of_day_minute:
  "wf_hhmm s \<Longrightarrow> 0 \<le> snd (time_of_day s) \<and> snd (time_of_day s) < 60"
  by (erule wf_hhmm_cases) (use digit_value_range in \<open>fastforce\<close>)

section \<open>The active time window\<close>

text \<open>
  C7. For well-formed "HH:MM" start and end times and every time of day (minute 0 to 59):
  when start \<open>\<le>\<close> end, \<open>is_within_time_range\<close> is true exactly when
  start \<open>\<le>\<close> current \<open>\<le>\<close> end; when start \<open>>\<close> end, exactly when current \<open>\<ge>\<close> start or
  current \<open>\<le>\<close> end. With start "22:00" and end "06:00", 23:30 is inside and 12:00 is not.
\<close>

theorem within_time_range_spec:
  assumes "wf_hhmm s" and "wf_hhmm e" and "0 \<le> cm" and "cm < 60"
  shows "is_within_time_range s e (y, mo, d, ch, cm, sec, wd, yd) =
           Inr (if time_le (time_of_day s) (time_of_day e)
                then time_le (time_of_day s) (ch, cm) \<and> time_le (ch, cm) (time_of_day e)
                else time_le (time_of_day s) (ch, cm) \<or> time_le (ch, cm) (time_of_day e))
       \<and> is_within_time_range ''22:00'' ''06:00'' (y, mo, d, 23, 30, sec, wd, yd) = Inr True
       \<and> is_within_time_range ''22:00'' ''06:00'' (y, mo, d, 12, 0, sec, wd, yd) = Inr False"
proof -
  obtain sh sm where ts: "time_of_day s = (sh, sm)" by (cases "time_of_day s")
  obtain eh em where te: "time_of_day e = (eh, em)" by (cases "time_of_day e")
  have rs: "0 \<le> sm" "sm < 60" using time_of_day_minute[OF assms(1)] ts by auto
  have re: "0 \<le> em" "em < 60" using time_of_day_minute[OF assms(2)] te by auto
  have general: "is_within_time_range s e (y, mo, d, ch, cm, sec, wd, yd) =
           Inr (if time_le (time_of_day s) (time_of_day e)
                then time_le (time_of_day s) (ch, cm) \<and> time_le (ch, cm) (time_of_day e)
                else time_le (time_of_day s) (ch, cm) \<or> time_le (ch, cm) (time_of_day e))"
    unfolding is_within_time_range_def parse_hhmm[OF assms(1)] parse_hhmm[OF assms(2)] ts te
    using minutes_le_iff[OF rs re] minutes_le_iff[OF rs assms(3,4)] minutes_le_iff[OF assms(3,4) re]
    by (simp add: Let_def del: time_le.simps)
  have wf22: "wf_hhmm ''22:00''" and wf06: "wf_hhmm ''06:00''"
    by (simp_all add: is_digit_def digit_value_def)
  have t22: "time_of_day ''22:00'' = (22, 0)" and t06: "time_of_day ''06:00'' = (6, 0)"
    by (simp_all add: digit_value_def)
  have c1: "is_within_time_range ''22:00'' ''06:00'' (y, mo, d, 23, 30, sec, wd, yd) = Inr True"
    unfolding is_within_time_range_def parse_hhmm[OF wf22] parse_hhmm[OF wf06] t22 t06
    by simp
  have c2: "is_within_time_range ''22:00'' ''06:00'' (y, mo, d, 12, 0, sec, wd, yd) = Inr False"
    unfolding is_within_time_range_def parse_hhmm[OF wf22] parse_hhmm[OF wf06] t22 t06
    by simp
  from general c1 c2 show ?thesis by blast
qed

theorem within_time_range_spec_witness:
  "wf_hhmm ''22:00'' \<and> wf_hhmm ''06:00'' \<and> (0::int) \<le> 30 \<and> (30::int) < 60
   \<and> is_within_time_range ''22:00'' ''06:00'' (2025, 12, 24, 23, 30, 0, 2, 358) = Inr True
   \<and> is_within_time_range ''22:00'' ''06:00'' (2025, 12, 24, 12, 0, 0, 2, 358) = Inr False"
proof -
  have h1: "wf_hhmm ''22:00''" and h2: "wf_hhmm ''06:00''"
    by (simp_all add: is_digit_def digit_value_def)
  have h3: "(0::int) \<le> 30" and h4: "(30::int) < 60" by simp_all
  from within_time_range_spec[OF h1 h2 h3 h4, of 2025 12 24 23 0 2 358] h1 h2 h3 h4
  show ?thesis by blast
qed

section \<open>The block partition\<close>

text \<open>
  C8. With 100 pixels and a countdown length of 10, in either orientation, the pixel
  span of every day index above 1 is exactly 10 pixels wide, and the spans of the day
  indices 0 to 10 together cover the pixels 0 to 99, and nothing else.
\<close>

theorem block_partition_100_10:
  "(\<forall>d. 1 < d \<longrightarrow> (case block_span fp 100 10 (100 div 10) d of (lo, hi) \<Rightarrow> hi - lo = 10))
   \<and> (\<Union>d \<in> {0..10}. case block_span fp 100 10 (100 div 10) d of (lo, hi) \<Rightarrow> {lo..<hi})
       = {0..<100}"
proof (intro conjI allI impI)
  fix d :: int
  assume "1 < d"
  then show "case block_span fp 100 10 (100 div 10) d of (lo, hi) \<Rightarrow> hi - lo = 10"
    by (simp add: block_span_def Let_def)
next
  show "(\<Union>d \<in> {0..10}. case block_span fp 100 10 (100 div 10) d of (lo, hi) \<Rightarrow> {lo..<hi})
       = {0..<100}" (is "?U = _")
  proof (rule set_eqI)
    fix x :: int
    show "x \<in> ?U \<longleftrightarrow> x \<in> {0..<100}"
    proof
      assume "x \<in> ?U"
      then obtain d where "0 \<le> d" "d \<le> 10"
        and "x \<in> (case block_span fp 100 10 (100 div 10) d of (lo, hi) \<Rightarrow> {lo..<hi})"
        by auto
      then show "x \<in> {0..<100}"
        by (cases "1 < d"; cases fp) (auto simp: block_span_def Let_def)
    next
      assume x: "x \<in> {0..<100}"
      define d where "d = (if fp then 10 - x div 10 else x div 10 + 1)"
      have d: "1 \<le> d" "d \<le> 10" using x by (auto simp: d_def)
      have mem: "x \<in> (case block_span fp 100 10 (100 div 10) d of (lo, hi) \<Rightarrow> {lo..<hi})"
        using x by (cases "1 < d"; cases fp) (auto simp: block_span_def Let_def d_def)
      have "d \<in> {0..10}" using d by simp
      then show "x \<in> ?U" using mem by (rule UN_I)
    qed
  qed
qed

theorem block_partition_100_10_witness:
  "(1::int) < 5
   \<and> (case block_span False 100 10 (100 div 10) 5 of (lo, hi) \<Rightarrow> hi - lo = 10)
   \<and> block_span False 100 10 (100 div 10) 5 = (40, 50)
   \<and> (\<Union>d \<in> {0..10}. case block_span False 100 10 (100 div 10) d of (lo, hi) \<Rightarrow> {lo..<hi})
       = {0..<100}"
proof -
  have h: "(1::int) < 5" by simp
  have v: "block_span False 100 10 (100 div 10) 5 = (40, 50)"
    by (simp add: block_span_def Let_def)
  note part = block_partition_100_10[of False]
  have w: "case block_span False 100 10 (100 div 10) 5 of (lo, hi) \<Rightarrow> hi - lo = 10"
    by (rule part[THEN conjunct1, rule_format, OF h])
  from part have u: "(\<Union>d \<in> {0..10}. case block_span False 100 10 (100 div 10) d of (lo, hi) \<Rightarrow> {lo..<hi})
       = {0..<100}" by (rule conjunct2)
  from h w v u show ?thesis by (intro conjI)
qed

section \<open>Mode selection\<close>

lemma countdown_length_nonneg:
  "calculate_countdown_length p stg = Inr n \<Longrightarrow> 0 \<le> n"
  by (auto simp: calculate_countdown_length_def split: sum.splits)

lemma ctor_fields:
  assumes "CountdownState p ticks cur stg k = Inr (st, k')"
  shows "calculate_days_remaining p cur stg = Inr (days_remaining st)"
    and "calculate_countdown_length p stg = Inr (countdown_length st)"
    and "settings st = stg" and "current_date st = cur"
  using assms by (auto simp: CountdownState_def split: sum.splits prod.splits)

lemma render_calls:
  "fst (snd (render p st s)) =
     (if days_remaining st \<le> countdown_length st
      then (if fst (render_countdown p st s) = None then [CallRenderCountdown, CallWrite]
            else [CallRenderCountdown])
      else [CallRenderBreathing, CallWrite])"
  by (auto simp: render_def split: prod.splits option.splits)

text \<open>A state that the constructor builds has a countdown length that is an absolute
  value: whenever its remaining days are negative, \<open>render\<close> runs the countdown blocks.\<close>

lemma negative_days_select_countdown:
  assumes "CountdownState p ticks cur stg k = Inr (st, k')" and "days_remaining st < 0"
  shows "hd (fst (snd (render p st s))) = CallRenderCountdown
       \<and> CallRenderBreathing \<notin> set (fst (snd (render p st s)))"
proof -
  have "0 \<le> countdown_length st"
    using ctor_fields(2)[OF assms(1)] by (rule countdown_length_nonneg)
  with assms(2) have le: "days_remaining st \<le> countdown_length st" by simp
  then show ?thesis by (simp add: render_calls)
qed

lemma ctor_past: "CountdownState pico (Some 0) (2025, 12, 26) stg_ten 0 = Inr (st_past, 3)"
  by code_simp

text \<open>
  C1. The code does not do what the claim says. On 2025-12-26, one day after the target
  date of a ten-day countdown, the constructor builds a state with
  \<open>days_remaining = -1\<close> and \<open>countdown_length = 10\<close>. \<open>render\<close> tests
  \<open>days_remaining <= countdown_length\<close>, so it runs \<open>_render_countdown\<close> and never
  \<open>_render_breathing\<close>, the method whose docstring is "Render breathing animation when
  event arrives".
\<close>

theorem past_target_not_breathing:
  "CountdownState pico (Some 0) (2025, 12, 26) stg_ten 0 = Inr (st_past, 3)
   \<and> days_remaining st_past = - 1
   \<and> countdown_length st_past = 10
   \<and> hd (fst (snd (render pico st_past (strip_off, 3)))) = CallRenderCountdown
   \<and> CallRenderBreathing \<notin> set (fst (snd (render pico st_past (strip_off, 3))))"
proof -
  have a: "days_remaining st_past = - 1" "countdown_length st_past = 10"
    by (simp_all add: st_past_def)
  have b: "hd (fst (snd (render pico st_past (strip_off, 3)))) = CallRenderCountdown"
    "CallRenderBreathing \<notin> set (fst (snd (render pico st_past (strip_off, 3))))"
    by (simp_all add: render_calls a)
  from ctor_past a b show ?thesis by (intro conjI)
qed

section \<open>One iteration of the main loop\<close>

lemma settings_update_animation_phase [simp]:
  "settings (update_animation_phase st) = settings st"
  by (simp add: update_animation_phase_def)

lemma settings_update_flash_phase [simp]:
  "settings (update_flash_phase ticks clk st) = settings st"
  by (simp add: update_flash_phase_def Let_def split: option.splits prod.splits)

lemma adj_noon:
  "adjust_time_with_offset pico (clock inp_noon) (timezone_offset app_three)
     = (2025, 12, 23, 12, 0, 0, 1, 357)"
  by code_simp

lemma adj_night:
  "adjust_time_with_offset pico (clock inp_night) (timezone_offset app_three)
     = (2025, 12, 23, 23, 30, 0, 1, 357)"
  by code_simp

lemma window_three:
  "start_time (settings (state app_three)) = ''22:00''"
  "end_time (settings (state app_three)) = ''06:00''"
  by (simp_all add: app_three_def st_three_def stg_three_def stg_ten_def)

lemma range_2200_0600:
  "is_within_time_range ''22:00'' ''06:00'' (y, mo, d, 12, 0, sec, wd, yd) = Inr False"
  "is_within_time_range ''22:00'' ''06:00'' (y, mo, d, 23, 30, sec, wd, yd) = Inr True"
  by (simp_all add: is_within_time_range_def unpack2_def int_of_str_def str_strip_def
      is_space_def is_digit_def digits_value_def digit_value_def)

text \<open>
  C9. On an iteration whose offset-adjusted current time is outside the configured
  window, whatever the sensor reads and has counted, the iteration raises nothing, the
  only method it calls is \<open>clear\<close> (no render, no refresh), and afterwards every pixel
  of the buffer and of the strip is off.
\<close>

theorem outside_window_blanks:
  assumes "is_within_time_range (start_time (settings (state a))) (end_time (settings (state a)))
             (adjust_time_with_offset p (clock inp) (timezone_offset a)) = Inr False"
  shows "fst (main_loop_iteration p inp a) = None
       \<and> fst (snd (main_loop_iteration p inp a)) = [CallClear]
       \<and> np (led (snd (snd (main_loop_iteration p inp a))))
           = replicate (length (np (led a))) COLOR_OFF
       \<and> shown (led (snd (snd (main_loop_iteration p inp a))))
           = replicate (length (np (led a))) COLOR_OFF"
  using assms
  by (simp add: main_loop_iteration_def Let_def clear_def write_strip_def split: prod.splits)

theorem outside_window_blanks_witness:
  "is_within_time_range (start_time (settings (state app_three)))
     (end_time (settings (state app_three)))
     (adjust_time_with_offset pico (clock inp_noon) (timezone_offset app_three)) = Inr False
   \<and> fst (main_loop_iteration pico inp_noon app_three) = None
   \<and> fst (snd (main_loop_iteration pico inp_noon app_three)) = [CallClear]
   \<and> np (led (snd (snd (main_loop_iteration pico inp_noon app_three))))
       = replicate (length (np (led app_three))) COLOR_OFF
   \<and> shown (led (snd (snd (main_loop_iteration pico inp_noon app_three))))
       = replicate (length (np (led app_three))) COLOR_OFF"
proof -
  have h: "is_within_time_range (start_time (settings (state app_three)))
     (end_time (settings (state app_three)))
     (adjust_time_with_offset pico (clock inp_noon) (timezone_offset app_three)) = Inr False"
    by (simp only: adj_noon window_three range_2200_0600)
  from outside_window_blanks[OF h] h show ?thesis by blast
qed

text \<open>
  C10. On an iteration whose current time is inside the window and whose sensor update
  returns neither consistent_dark nor consistent_light, the iteration raises nothing,
  calls neither render nor clear nor refresh, and leaves the LED controller (buffer and
  strip) exactly as it was.
\<close>

theorem undecided_sensor_keeps_pixels:
  assumes "is_within_time_range (start_time (settings (state a))) (end_time (settings (state a)))
             (adjust_time_with_offset p (clock inp) (timezone_offset a)) = Inr True"
    and "fst (update (sensor a) (adc_reading inp)) = (is_dark, False, False)"
  shows "fst (main_loop_iteration p inp a) = None
       \<and> fst (snd (main_loop_iteration p inp a)) = []
       \<and> led (snd (snd (main_loop_iteration p inp a))) = led a"
proof -
  obtain sensor' where u: "update (sensor a) (adc_reading inp) = ((is_dark, False, False), sensor')"
    using assms(2) by (cases "update (sensor a) (adc_reading inp)") auto
  show ?thesis
    using assms(1) by (simp add: main_loop_iteration_def Let_def u)
qed

theorem undecided_sensor_keeps_pixels_witness:
  "is_within_time_range (start_time (settings (state app_three)))
     (end_time (settings (state app_three)))
     (adjust_time_with_offset pico (clock inp_night) (timezone_offset app_three)) = Inr True
   \<and> fst (update (sensor app_three) (adc_reading inp_night)) = (True, False, False)
   \<and> fst (main_loop_iteration pico inp_night app_three) = None
   \<and> fst (snd (main_loop_iteration pico inp_night app_three)) = []
   \<and> led (snd (snd (main_loop_iteration pico inp_night app_three))) = led app_three"
proof -
  have h1: "is_within_time_range (start_time (settings (state app_three)))
     (end_time (settings (state app_three)))
     (adjust_time_with_offset pico (clock inp_night) (timezone_offset app_three)) = Inr True"
    by (simp only: adj_night window_three range_2200_0600)
  have h2: "fst (update (sensor app_three) (adc_reading inp_night)) = (True, False, False)"
    by (simp add: update_def app_three_def inp_night_def inp_noon_def LightSensor_def
        LDR_THRESHOLD_def CONSECUTIVE_READINGS_NEEDED_def Let_def)
  from undecided_sensor_keeps_pixels[OF h1 h2] h1 h2 show ?thesis by blast
qed

section \<open>Refreshing the settings\<close>










section \<open>Evaluating a render on the six-pixel strip\<close>

lemmas eval_defs =
  render_def render_countdown_def st_three_def stg_three_def stg_ten_def strip_off_def strip_lit_def
  LEDStripController_def day_range_def
  py_range_down_def py_range_def draw_day_def block_span_def num_pixels_def
  fill_pixel_def primary_block_def flashes_def string_to_rgb_def unpack3_def
  int_of_str_def str_strip_def is_space_def is_digit_def digits_value_def digit_value_def
  lighten_def lighten_factor_of_def clamp_def trunc_def set_pixel_def mark_block_def block_start_def
  COLOR_OFF_def write_strip_def upto.simps Let_def

lemma render_three_off:
  "render pico st_three (strip_off, 0) =
     (None, [CallRenderCountdown, CallWrite],
      (\<lparr>np = [(255, 255, 255), (0, 0, 0), (255, 0, 0), (255, 0, 0), (255, 255, 255), (0, 255, 0)],
        shown = [(255, 255, 255), (0, 0, 0), (255, 0, 0), (255, 0, 0), (255, 255, 255), (0, 255, 0)]\<rparr>, 0))"
  by (simp add: eval_defs eval_nat_numeral)

lemma render_three_lit:
  "render pico st_three (strip_lit, 0) =
     (None, [CallRenderCountdown, CallWrite],
      (\<lparr>np = [(255, 255, 255), (9, 9, 9), (255, 0, 0), (255, 0, 0), (255, 255, 255), (0, 255, 0)],
        shown = [(255, 255, 255), (9, 9, 9), (255, 0, 0), (255, 0, 0), (255, 255, 255), (0, 255, 0)]\<rparr>, 0))"
  by (simp add: eval_defs eval_nat_numeral)

lemma render_plain_grey:
  "render pico st_plain (strip_grey, 0) =
     (None, [CallRenderCountdown, CallWrite],
      (\<lparr>np = [(255, 255, 255), (100, 100, 100), (255, 255, 255), (100, 100, 100),
              (116, 118, 118), (116, 118, 118)],
        shown = [(255, 255, 255), (100, 100, 100), (255, 255, 255), (100, 100, 100),
              (116, 118, 118), (116, 118, 118)]\<rparr>, 4))"
  by (simp add: eval_defs st_plain_def strip_grey_def choice_sign_def get_pixel_def pico_def
      eval_nat_numeral mod_Suc)

lemma render_plain_grey_zero:
  "render (pico\<lparr>draws := \<lambda>k. 0\<rparr>) st_plain (strip_grey, 0) =
     (None, [CallRenderCountdown, CallWrite],
      (\<lparr>np = [(255, 255, 255), (100, 100, 100), (255, 255, 255), (100, 100, 100),
              (116, 118, 116), (116, 118, 116)],
        shown = [(255, 255, 255), (100, 100, 100), (255, 255, 255), (100, 100, 100),
              (116, 118, 116), (116, 118, 116)]\<rparr>, 4))"
  by (simp add: eval_defs st_plain_def strip_grey_def choice_sign_def get_pixel_def pico_def
      eval_nat_numeral mod_Suc)

lemma plain_facts:
  "\<not> use_custom_colors (settings st_plain)"
  "days_remaining st_plain \<le> countdown_length st_plain"
  "day_range st_plain = [3]"
  "countdown_length st_plain = 3"
  "num_pixels strip_grey = 6"
  "from_pi (settings st_plain) = False"
  "with_marker (settings st_plain)"
  "is_flashing st_plain"
  "animation_phase st_plain = 0"
  "primary_block st_plain 3 = True"
  "np strip_grey = replicate 6 (100, 100, 100)"
  "lighten_factor_of 0 = 47 / 40"
  by (simp_all add: eval_defs st_plain_def strip_grey_def eval_nat_numeral)

section \<open>Rendering: what the pixel buffer depends on\<close>

lemma length_set_pixel [simp]: "length (np (set_pixel l i c)) = length (np l)"
  by (simp add: set_pixel_def)

lemma num_pixels_set_pixel [simp]: "num_pixels (set_pixel l i c) = num_pixels l"
  by (simp add: num_pixels_def)

lemma nth_set_pixel:
  "j < length (np l) \<Longrightarrow>
   np (set_pixel l i c) ! j = (if i = int j then c else np l ! j)"
  by (auto simp: set_pixel_def num_pixels_def nth_list_update)

lemma foldl_breathing:
  assumes "j < length (np l)"
  shows "length (np (foldl (breathing_pixel st) l is)) = length (np l)
       \<and> np (foldl (breathing_pixel st) l is) ! j =
           (let n = num_pixels l; i = (if from_pi (settings st) then n - 1 - int j else int j)
            in if i \<in> set is then breathing_color st n i else np l ! j)"
proof -
  define f where "f = breathing_pixel st"
  have f: "\<And>l' i. f l' i =
      set_pixel l' (if from_pi (settings st) then num_pixels l' - 1 - i else i)
        (breathing_color st (num_pixels l') i)"
    by (simp add: f_def breathing_pixel_def Let_def)
  have "length (np (foldl f l is)) = length (np l)
       \<and> np (foldl f l is) ! j =
           (let n = num_pixels l; i = (if from_pi (settings st) then n - 1 - int j else int j)
            in if i \<in> set is then breathing_color st n i else np l ! j)"
  proof (induction "is" rule: rev_induct)
    case Nil
    show ?case by (simp add: Let_def)
  next
    case (snoc i "is")
    define l' where "l' = foldl f l is"
    have len: "length (np l') = length (np l)" using snoc.IH by (simp add: l'_def)
    have n: "num_pixels l' = num_pixels l" using len by (simp add: num_pixels_def)
    have j: "j < length (np l')" using assms len by simp
    have step: "foldl f l (is @ [i]) =
        set_pixel l' (if from_pi (settings st) then num_pixels l - 1 - i else i)
          (breathing_color st (num_pixels l) i)"
      by (simp add: l'_def[symmetric] f n)
    have ih: "np l' ! j =
        (let n = num_pixels l; i = (if from_pi (settings st) then n - 1 - int j else int j)
         in if i \<in> set is then breathing_color st n i else np l ! j)"
      using snoc.IH by (simp add: l'_def)
    have inv: "num_pixels l - 1 - i = int j \<longleftrightarrow> i = num_pixels l - 1 - int j"
      by auto
    show ?case
      unfolding step using ih len
      by (auto simp: Let_def nth_set_pixel[OF j] inv)
  qed
  then show ?thesis by (simp add: f_def)
qed

lemma foldl_breathing_length [simp]:
  "length (np (foldl (breathing_pixel st) l is)) = length (np l)"
proof (cases "np l")
  case Nil
  have "\<And>l'. np l' = [] \<Longrightarrow> np (breathing_pixel st l' i) = []" for i
    by (simp add: breathing_pixel_def set_pixel_def Let_def)
  then have "np (foldl (breathing_pixel st) l is) = []"
    using Nil by (induction "is" rule: rev_induct) simp_all
  then show ?thesis using Nil by simp
next
  case (Cons c cs)
  then have "0 < length (np l)" by simp
  from foldl_breathing[OF this] show ?thesis by blast
qed

lemma foldl_breathing_nth:
  assumes "j < length (np l)"
  shows "np (foldl (breathing_pixel st) l is) ! j =
     (let n = num_pixels l; i = (if from_pi (settings st) then n - 1 - int j else int j)
      in if i \<in> set is then breathing_color st n i else np l ! j)"
  using foldl_breathing[OF assms] by blast

lemma render_breathing_nth:
  assumes "j < length (np l)"
  shows "np (render_breathing st l) ! j =
     breathing_color st (num_pixels l)
       (if from_pi (settings st) then num_pixels l - 1 - int j else int j)"
proof -
  have "(if from_pi (settings st) then num_pixels l - 1 - int j else int j)
      \<in> set (py_range 0 (num_pixels l))"
    using assms by (auto simp: py_range_def num_pixels_def)
  then show ?thesis
    unfolding render_breathing_def by (simp add: foldl_breathing_nth[OF assms] Let_def)
qed

lemma render_breathing_buffer:
  assumes "length (np l1) = length (np l2)"
  shows "np (render_breathing st l1) = np (render_breathing st l2)"
proof (rule nth_equalityI)
  show "length (np (render_breathing st l1)) = length (np (render_breathing st l2))"
    using assms by (simp add: render_breathing_def)
next
  fix j assume "j < length (np (render_breathing st l1))"
  then have j1: "j < length (np l1)" by (simp add: render_breathing_def)
  then have j2: "j < length (np l2)" using assms by simp
  have "num_pixels l1 = num_pixels l2" using assms by (simp add: num_pixels_def)
  then show "np (render_breathing st l1) ! j = np (render_breathing st l2) ! j"
    by (simp add: render_breathing_nth[OF j1] render_breathing_nth[OF j2])
qed

text \<open>Two loops whose bodies agree on the exception and on the controller, whatever the
  position in the random draws, agree on both at the end.\<close>

lemma for_each_agree:
  assumes "\<And>i l k k'. map_prod id fst (b1 i (l, k)) = map_prod id fst (b2 i (l, k'))"
  shows "map_prod id fst (for_each b1 is (l, k)) = map_prod id fst (for_each b2 is (l, k'))"
proof (induction "is" arbitrary: l k k')
  case Nil
  show ?case by simp
next
  case (Cons i "is")
  obtain e1 l1 k1 where r1: "b1 i (l, k) = (e1, (l1, k1))" by (metis prod.exhaust)
  obtain e2 l2 k2 where r2: "b2 i (l, k') = (e2, (l2, k2))" by (metis prod.exhaust)
  from assms[of i l k k'] have eq: "e1 = e2" "l1 = l2" by (simp_all add: r1 r2)
  show ?case
  proof (cases e1)
    case None
    then show ?thesis using Cons.IH[of l1 k1 k2] eq by (simp add: r1 r2)
  next
    case (Some e)
    then show ?thesis using eq by (simp add: r1 r2)
  qed
qed

lemma fill_pixel_custom_agree:
  assumes "use_custom_colors (settings st)"
  shows "map_prod id fst (fill_pixel p1 st fg lf d px (l, k))
       = map_prod id fst (fill_pixel p2 st fg lf d px (l, k'))"
  using assms by (simp add: fill_pixel_def Let_def split: sum.splits)

lemma mark_block_agree:
  "map_prod id fst (mark_block st bsz lo hi b (l, k))
     = map_prod id fst (mark_block st bsz lo hi b (l, k'))"
  by (simp add: mark_block_def Let_def split: sum.splits)

lemma draw_day_custom_agree:
  assumes "use_custom_colors (settings st)"
  shows "map_prod id fst (draw_day p1 st fg lf bsz d (l, k))
       = map_prod id fst (draw_day p2 st fg lf bsz d (l, k'))"
proof -
  obtain lo hi where sp: "block_span (from_pi (settings st)) (num_pixels l) (countdown_length st) bsz d
      = (lo, hi)" by (metis prod.exhaust)
  let ?f1 = "for_each (fill_pixel p1 st fg lf d) (py_range lo hi) (l, k)"
  let ?f2 = "for_each (fill_pixel p2 st fg lf d) (py_range lo hi) (l, k')"
  have f: "map_prod id fst ?f1 = map_prod id fst ?f2"
    by (rule for_each_agree) (rule fill_pixel_custom_agree[OF assms])
  obtain e1 l1 k1 where r1: "?f1 = (e1, (l1, k1))" by (metis prod.exhaust)
  obtain e2 l2 k2 where r2: "?f2 = (e2, (l2, k2))" by (metis prod.exhaust)
  from f have "e2 = e1" "l2 = l1" by (simp_all add: r1 r2)
  then have r2': "?f2 = (e1, (l1, k2))" using r2 by simp
  have m: "map_prod id fst (for_each (mark_block st bsz lo hi) (py_range 0 (countdown_length st)) (l1, k1))
      = map_prod id fst (for_each (mark_block st bsz lo hi) (py_range 0 (countdown_length st)) (l1, k2))"
    by (rule for_each_agree) (rule mark_block_agree)
  show ?thesis
    using m by (cases e1) (simp_all add: draw_day_def sp r1 r2')
qed

lemma render_countdown_custom_agree:
  assumes "use_custom_colors (settings st)"
  shows "map_prod id fst (render_countdown p1 st (l, k))
       = map_prod id fst (render_countdown p2 st (l, k'))"
proof (cases "countdown_length st = 0")
  case True
  then show ?thesis by (simp add: render_countdown_def Let_def)
next
  case False
  have "map_prod id fst
          (for_each (draw_day p1 st (if sin (animation_phase st) \<ge> 0 then 0 else 1)
             (lighten_factor_of (animation_phase st)) (num_pixels l div countdown_length st))
             (day_range st) (l, k))
      = map_prod id fst
          (for_each (draw_day p2 st (if sin (animation_phase st) \<ge> 0 then 0 else 1)
             (lighten_factor_of (animation_phase st)) (num_pixels l div countdown_length st))
             (day_range st) (l, k'))"
    by (rule for_each_agree) (rule draw_day_custom_agree[OF assms])
  then show ?thesis using False by (simp add: render_countdown_def Let_def)
qed

section \<open>Loops over the strip\<close>

lemma for_each_append:
  "for_each body (xs @ ys) s =
     (case for_each body xs s of
        (Some e, s') \<Rightarrow> (Some e, s')
      | (None, s') \<Rightarrow> for_each body ys s')"
  by (induction xs arbitrary: s) (auto split: prod.splits option.splits)

text \<open>A loop whose body keeps the number of pixels keeps it.\<close>

lemma for_each_num_pixels:
  assumes "\<And>i s. num_pixels (fst (snd (body i s))) = num_pixels (fst s)"
  shows "num_pixels (fst (snd (for_each body is s))) = num_pixels (fst s)"
proof (induction "is" arbitrary: s)
  case Nil
  show ?case by simp
next
  case (Cons i "is")
  obtain e s' where r: "body i s = (e, s')" by (metis prod.exhaust)
  have n: "num_pixels (fst s') = num_pixels (fst s)" using assms[of i s] by (simp add: r)
  show ?case
  proof (cases e)
    case None
    then show ?thesis using Cons.IH[of s'] n by (simp add: r)
  next
    case (Some x)
    then show ?thesis using n by (simp add: r)
  qed
qed

lemma fill_pixel_num_pixels:
  "num_pixels (fst (snd (fill_pixel p st fg lf d px s))) = num_pixels (fst s)"
  by (cases s) (simp add: fill_pixel_def Let_def split: sum.splits prod.splits)

lemma mark_block_num_pixels:
  "num_pixels (fst (snd (mark_block st bsz lo hi b s))) = num_pixels (fst s)"
  by (cases s) (simp add: mark_block_def Let_def split: sum.splits)

lemma draw_day_num_pixels:
  "num_pixels (fst (snd (draw_day p st fg lf bsz d s))) = num_pixels (fst s)"
proof -
  obtain lo hi where sp: "block_span (from_pi (settings st)) (num_pixels (fst s))
      (countdown_length st) bsz d = (lo, hi)" by (metis prod.exhaust)
  obtain e s' where f: "for_each (fill_pixel p st fg lf d) (py_range lo hi) s = (e, s')"
    by (metis prod.exhaust)
  have n: "num_pixels (fst s') = num_pixels (fst s)"
    using for_each_num_pixels[of "fill_pixel p st fg lf d" "py_range lo hi" s,
        OF fill_pixel_num_pixels] by (simp add: f)
  have m: "num_pixels (fst (snd (for_each (mark_block st bsz lo hi)
      (py_range 0 (countdown_length st)) s'))) = num_pixels (fst s')"
    by (rule for_each_num_pixels) (rule mark_block_num_pixels)
  show ?thesis
    using n m by (cases e) (simp_all add: draw_day_def sp f)
qed

lemma set_pixel_other:
  "int j \<noteq> i \<Longrightarrow> np (set_pixel l i c) ! j = np l ! j"
  by (auto simp: set_pixel_def)

lemma fill_pixel_frame:
  "int j \<noteq> px \<Longrightarrow> np (fst (snd (fill_pixel p st fg lf d px s))) ! j = np (fst s) ! j"
  by (cases s) (simp add: fill_pixel_def Let_def set_pixel_other split: sum.splits prod.splits)

lemma mark_block_frame:
  "int j \<noteq> block_start (from_pi (settings st)) (num_pixels (fst s)) bsz b \<Longrightarrow>
   np (fst (snd (mark_block st bsz lo hi b s))) ! j = np (fst s) ! j"
  by (cases s) (simp add: mark_block_def Let_def set_pixel_other split: sum.splits)

lemma mark_block_span:
  "lo \<le> int j \<Longrightarrow> int j < hi \<Longrightarrow>
   np (fst (snd (mark_block st bsz lo hi b s))) ! j = np (fst s) ! j"
  by (cases s) (auto simp: mark_block_def Let_def set_pixel_other split: sum.splits)

lemma for_each_frame:
  assumes "\<And>i s. i \<in> set is \<Longrightarrow> num_pixels (fst s) = n \<Longrightarrow>
             np (fst (snd (body i s))) ! j = np (fst s) ! j"
    and "\<And>i s. num_pixels (fst (snd (body i s))) = num_pixels (fst s)"
    and "num_pixels (fst s) = n"
  shows "np (fst (snd (for_each body is s))) ! j = np (fst s) ! j"
  using assms(1,3)
proof (induction "is" arbitrary: s)
  case Nil
  show ?case by simp
next
  case (Cons i "is")
  obtain e s' where r: "body i s = (e, s')" by (metis prod.exhaust)
  have n: "num_pixels (fst s') = n" using assms(2)[of i s] Cons.prems(2) by (simp add: r)
  have k: "np (fst s') ! j = np (fst s) ! j" using Cons.prems(1)[of i s] Cons.prems(2) by (simp add: r)
  show ?case
  proof (cases e)
    case None
    have "np (fst (snd (for_each body is s'))) ! j = np (fst s') ! j"
      by (rule Cons.IH) (use Cons.prems(1) n in auto)
    then show ?thesis using k None by (simp add: r)
  next
    case (Some x)
    then show ?thesis using k by (simp add: r)
  qed
qed

lemma draw_day_frame:
  assumes "\<not> (fst (block_span (from_pi (settings st)) (num_pixels (fst s)) (countdown_length st) bsz d) \<le> int j
             \<and> int j < snd (block_span (from_pi (settings st)) (num_pixels (fst s)) (countdown_length st) bsz d))"
    and "with_marker (settings st) \<longrightarrow>
         (\<forall>b \<in> set (py_range 0 (countdown_length st)).
            block_start (from_pi (settings st)) (num_pixels (fst s)) bsz b \<noteq> int j)"
  shows "np (fst (snd (draw_day p st fg lf bsz d s))) ! j = np (fst s) ! j"
proof -
  obtain lo hi where sp: "block_span (from_pi (settings st)) (num_pixels (fst s))
      (countdown_length st) bsz d = (lo, hi)" by (metis prod.exhaust)
  obtain e s' where f: "for_each (fill_pixel p st fg lf d) (py_range lo hi) s = (e, s')"
    by (metis prod.exhaust)
  have n: "num_pixels (fst s') = num_pixels (fst s)"
    using for_each_num_pixels[of "fill_pixel p st fg lf d" "py_range lo hi" s,
        OF fill_pixel_num_pixels] by (simp add: f)
  have out: "\<not> (lo \<le> int j \<and> int j < hi)" using assms(1) by (simp add: sp)
  have "np (fst (snd (for_each (fill_pixel p st fg lf d) (py_range lo hi) s))) ! j = np (fst s) ! j"
  proof (rule for_each_frame[where n = "num_pixels (fst s)"])
    fix i and t :: rstate assume "i \<in> set (py_range lo hi)"
    then have "int j \<noteq> i" using out by (auto simp: py_range_def)
    then show "np (fst (snd (fill_pixel p st fg lf d i t))) ! j = np (fst t) ! j"
      by (rule fill_pixel_frame)
  qed (simp_all add: fill_pixel_num_pixels)
  then have k1: "np (fst s') ! j = np (fst s) ! j" by (simp add: f)
  have k2: "with_marker (settings st) \<Longrightarrow>
      np (fst (snd (for_each (mark_block st bsz lo hi) (py_range 0 (countdown_length st)) s'))) ! j
        = np (fst s') ! j"
  proof (rule for_each_frame[where n = "num_pixels (fst s)"])
    fix b and t :: rstate assume wm: "with_marker (settings st)" and b: "b \<in> set (py_range 0 (countdown_length st))"
      and t: "num_pixels (fst t) = num_pixels (fst s)"
    from assms(2) wm b have "int j \<noteq> block_start (from_pi (settings st)) (num_pixels (fst t)) bsz b"
      by (auto simp: t)
    then show "np (fst (snd (mark_block st bsz lo hi b t))) ! j = np (fst t) ! j"
      by (rule mark_block_frame)
  qed (simp_all add: mark_block_num_pixels n)
  show ?thesis
    using k1 k2 by (cases e) (simp_all add: draw_day_def sp f)
qed

lemma render_countdown_frame:
  assumes "\<forall>d \<in> set (day_range st).
             \<not> (fst (block_span (from_pi (settings st)) (num_pixels (fst s)) (countdown_length st)
                      (num_pixels (fst s) div countdown_length st) d) \<le> int j
             \<and> int j < snd (block_span (from_pi (settings st)) (num_pixels (fst s)) (countdown_length st)
                      (num_pixels (fst s) div countdown_length st) d))"
    and "with_marker (settings st) \<longrightarrow>
         (\<forall>b \<in> set (py_range 0 (countdown_length st)).
            block_start (from_pi (settings st)) (num_pixels (fst s))
              (num_pixels (fst s) div countdown_length st) b \<noteq> int j)"
  shows "np (fst (snd (render_countdown p st s))) ! j = np (fst s) ! j"
proof (cases "countdown_length st = 0")
  case True
  then show ?thesis by (simp add: render_countdown_def Let_def)
next
  case False
  have "np (fst (snd (for_each (draw_day p st (if sin (animation_phase st) \<ge> 0 then 0 else 1)
             (lighten_factor_of (animation_phase st)) (num_pixels (fst s) div countdown_length st))
             (day_range st) s))) ! j = np (fst s) ! j"
  proof (rule for_each_frame[where n = "num_pixels (fst s)"])
    fix d and t :: rstate assume d: "d \<in> set (day_range st)" and t: "num_pixels (fst t) = num_pixels (fst s)"
    show "np (fst (snd (draw_day p st (if sin (animation_phase st) \<ge> 0 then 0 else 1)
             (lighten_factor_of (animation_phase st)) (num_pixels (fst s) div countdown_length st)
             d t))) ! j = np (fst t) ! j"
      by (rule draw_day_frame) (use assms d in \<open>auto simp: t\<close>)
  qed (simp_all add: draw_day_num_pixels)
  then show ?thesis using False by (simp add: render_countdown_def Let_def)
qed
lemma fill_pixel_plain:
  assumes "\<not> use_custom_colors (settings st)"
  shows "fill_pixel p st fg lf d px (l, k) =
     (None,
      (set_pixel l px
         (case get_pixel l px of (r, g, b) \<Rightarrow>
            if is_flashing st \<and> flashes fg (primary_block st d)
            then lighten
                   (clamp (of_int (r + (countdown_length st + 1 - d) * fst (choice_sign p k))) 0 255,
                    clamp (of_int (g - (countdown_length st + 1 - d) * fst (choice_sign p k))) 0 255,
                    clamp (of_int (b + (countdown_length st + 1 - d) * fst (choice_sign p (Suc k)))) 0 255)
                   lf
            else (clamp (of_int (r + (countdown_length st + 1 - d) * fst (choice_sign p k))) 0 255,
                  clamp (of_int (g - (countdown_length st + 1 - d) * fst (choice_sign p k))) 0 255,
                  clamp (of_int (b + (countdown_length st + 1 - d) * fst (choice_sign p (Suc k)))) 0 255)),
       Suc (Suc k)))"
  using assms
  by (simp add: fill_pixel_def choice_sign_def Let_def split: prod.splits)

lemma fill_pixel_plain_local:
  assumes "\<not> use_custom_colors (settings st)"
    and "np l1 ! nat px = np l2 ! nat px" and "0 \<le> px" and "px < num_pixels l1"
    and "num_pixels l2 = num_pixels l1"
  shows "np (fst (snd (fill_pixel p st fg lf d px (l1, k)))) ! nat px
       = np (fst (snd (fill_pixel p st fg lf d px (l2, k)))) ! nat px"
proof -
  have j1: "nat px < length (np l1)" and j2: "nat px < length (np l2)"
    using assms(3,4,5) by (simp_all add: num_pixels_def)
  have g: "get_pixel l1 px = get_pixel l2 px"
    using assms(2,3,4,5) by (simp add: get_pixel_def)
  show ?thesis
    using assms(3) g
    by (simp add: fill_pixel_plain[OF assms(1)] nth_set_pixel[OF j1] nth_set_pixel[OF j2])
qed

lemma fill_list_plain:
  assumes "\<not> use_custom_colors (settings st)" and "distinct xs"
  shows "fst (for_each (fill_pixel p st fg lf d) xs (l, k)) = None
       \<and> snd (snd (for_each (fill_pixel p st fg lf d) xs (l, k))) = k + 2 * length xs
       \<and> (\<forall>j < length xs. 0 \<le> xs ! j \<and> xs ! j < num_pixels l \<longrightarrow>
             np (fst (snd (for_each (fill_pixel p st fg lf d) xs (l, k)))) ! nat (xs ! j)
               = np (fst (snd (fill_pixel p st fg lf d (xs ! j) (l, k + 2 * j)))) ! nat (xs ! j))"
  using assms(2)
proof (induction xs arbitrary: l k)
  case Nil
  show ?case by simp
next
  case (Cons x xs)
  let ?F = "fill_pixel p st fg lf d"
  obtain l1 where r: "?F x (l, k) = (None, (l1, Suc (Suc k)))"
    using fill_pixel_plain[OF assms(1), of p fg lf d x l k] by simp
  have n1: "num_pixels l1 = num_pixels l"
    using fill_pixel_num_pixels[of p st fg lf d x "(l, k)"] by (simp add: r)
  from Cons.prems have dx: "distinct xs" and xn: "x \<notin> set xs" by simp_all
  note ih = Cons.IH[OF dx, of l1 "Suc (Suc k)"]
  have step: "for_each ?F (x # xs) (l, k) = for_each ?F xs (l1, Suc (Suc k))"
    by (simp add: r)
  have a: "fst (for_each ?F (x # xs) (l, k)) = None" unfolding step using ih by simp
  have b: "snd (snd (for_each ?F (x # xs) (l, k))) = k + 2 * length (x # xs)"
    unfolding step using ih by simp
  have c: "\<forall>j < length (x # xs). 0 \<le> (x # xs) ! j \<and> (x # xs) ! j < num_pixels l \<longrightarrow>
             np (fst (snd (for_each ?F (x # xs) (l, k)))) ! nat ((x # xs) ! j)
               = np (fst (snd (?F ((x # xs) ! j) (l, k + 2 * j)))) ! nat ((x # xs) ! j)"
  proof (intro allI impI)
    fix j assume j: "j < length (x # xs)"
      and rg: "0 \<le> (x # xs) ! j \<and> (x # xs) ! j < num_pixels l"
    show "np (fst (snd (for_each ?F (x # xs) (l, k)))) ! nat ((x # xs) ! j)
               = np (fst (snd (?F ((x # xs) ! j) (l, k + 2 * j)))) ! nat ((x # xs) ! j)"
    proof (cases j)
      case 0
      have "np (fst (snd (for_each ?F xs (l1, Suc (Suc k))))) ! nat x = np (fst (l1, Suc (Suc k))) ! nat x"
      proof (rule for_each_frame[where n = "num_pixels l1"])
        fix i and t :: rstate assume "i \<in> set xs"
        then have "int (nat x) \<noteq> i" using xn rg 0 by auto
        then show "np (fst (snd (?F i t))) ! nat x = np (fst t) ! nat x"
          by (rule fill_pixel_frame)
      qed (simp_all add: fill_pixel_num_pixels)
      then show ?thesis unfolding step using 0 by (simp add: r)
    next
      case (Suc j')
      then have j': "j' < length xs" using j by simp
      have px: "(x # xs) ! j = xs ! j'" using Suc by simp
      have ne: "xs ! j' \<noteq> x" using xn j' by (metis nth_mem)
      have rg': "0 \<le> xs ! j' \<and> xs ! j' < num_pixels l1" using rg px n1 by simp
      from ih j' rg' have e1: "np (fst (snd (for_each ?F xs (l1, Suc (Suc k))))) ! nat (xs ! j')
               = np (fst (snd (?F (xs ! j') (l1, Suc (Suc k) + 2 * j')))) ! nat (xs ! j')"
        by blast
      have same: "np l1 ! nat (xs ! j') = np l ! nat (xs ! j')"
      proof -
        have "int (nat (xs ! j')) \<noteq> x" using ne rg' by simp
        from fill_pixel_frame[OF this, of p st fg lf d "(l, k)"] show ?thesis by (simp add: r)
      qed
      have e2: "np (fst (snd (?F (xs ! j') (l1, Suc (Suc k) + 2 * j')))) ! nat (xs ! j')
              = np (fst (snd (?F (xs ! j') (l, Suc (Suc k) + 2 * j')))) ! nat (xs ! j')"
        by (rule fill_pixel_plain_local[OF assms(1) same]) (use rg' n1 in simp_all)
      show ?thesis unfolding step px using e1 e2 Suc by simp
    qed
  qed
  from a b c show ?case by blast
qed

lemma py_range_nth:
  "lo \<le> px \<Longrightarrow> px < hi \<Longrightarrow>
   nat (px - lo) < length (py_range lo hi) \<and> py_range lo hi ! nat (px - lo) = px"
  by (simp add: py_range_def)

lemma fill_range_plain:
  assumes "\<not> use_custom_colors (settings st)"
    and "lo \<le> px" and "px < hi" and "0 \<le> px" and "px < num_pixels l"
  shows "np (fst (snd (for_each (fill_pixel p st fg lf d) (py_range lo hi) (l, k)))) ! nat px
       = np (fst (snd (fill_pixel p st fg lf d px (l, k + 2 * nat (px - lo))))) ! nat px"
proof -
  have d: "distinct (py_range lo hi)" by (simp add: py_range_def)
  note r = py_range_nth[OF assms(2,3)]
  from fill_list_plain[OF assms(1) d, of p fg lf d l k] r assms(4,5)
  show ?thesis by (metis (no_types, lifting))
qed
lemma last_day_fill:
  assumes "render_countdown p st s = (None, s')"
    and "day_range st \<noteq> []"
    and "block_span (from_pi (settings st)) (num_pixels (fst s)) (countdown_length st)
           (num_pixels (fst s) div countdown_length st) (last (day_range st)) = (lo, hi)"
  obtains s1 s2 where
    "for_each (draw_day p st (if sin (animation_phase st) \<ge> 0 then 0 else 1)
        (lighten_factor_of (animation_phase st)) (num_pixels (fst s) div countdown_length st))
        (butlast (day_range st)) s = (None, s1)"
    "for_each (fill_pixel p st (if sin (animation_phase st) \<ge> 0 then 0 else 1)
        (lighten_factor_of (animation_phase st)) (last (day_range st))) (py_range lo hi) s1
       = (None, s2)"
    "num_pixels (fst s1) = num_pixels (fst s)"
    "\<forall>j. lo \<le> int j \<and> int j < hi \<longrightarrow> np (fst s') ! j = np (fst s2) ! j"
proof -
  let ?fg = "if sin (animation_phase st) \<ge> 0 then 0 else (1::int)"
  let ?lf = "lighten_factor_of (animation_phase st)"
  let ?bsz = "num_pixels (fst s) div countdown_length st"
  let ?draw = "draw_day p st ?fg ?lf ?bsz"
  have len: "countdown_length st \<noteq> 0"
    using assms(1) by (auto simp: render_countdown_def Let_def split: if_splits)
  have all: "for_each ?draw (day_range st) s = (None, s')"
    using assms(1) len by (simp add: render_countdown_def Let_def)
  obtain e s1 where b: "for_each ?draw (butlast (day_range st)) s = (e, s1)"
    by (metis prod.exhaust)
  have "for_each ?draw (butlast (day_range st) @ [last (day_range st)]) s = (None, s')"
    using all by (simp only: append_butlast_last_id[OF assms(2)])
  then have app: "(case e of Some x \<Rightarrow> (Some x, s1)
      | None \<Rightarrow> for_each ?draw [last (day_range st)] s1) = (None, s')"
    by (simp add: for_each_append b)
  have e: "e = None" using app by (cases e) simp_all
  obtain e' s'' where dd: "?draw (last (day_range st)) s1 = (e', s'')" by (metis prod.exhaust)
  have d: "?draw (last (day_range st)) s1 = (None, s')"
    using app by (cases e') (simp_all add: e dd)
  have n1: "num_pixels (fst s1) = num_pixels (fst s)"
    using for_each_num_pixels[of ?draw "butlast (day_range st)" s, OF draw_day_num_pixels]
    by (simp add: b)
  obtain e2 s2 where f: "for_each (fill_pixel p st ?fg ?lf (last (day_range st)))
      (py_range lo hi) s1 = (e2, s2)" by (metis prod.exhaust)
  have e2: "e2 = None"
    using d by (cases e2) (simp_all add: draw_day_def n1 assms(3) f)
  have m: "s' = (if with_marker (settings st)
                 then snd (for_each (mark_block st ?bsz lo hi) (py_range 0 (countdown_length st)) s2)
                 else s2)"
    using d by (simp add: draw_day_def n1 assms(3) f e2 split: if_splits)
  have keep: "\<forall>j. lo \<le> int j \<and> int j < hi \<longrightarrow> np (fst s') ! j = np (fst s2) ! j"
  proof (intro allI impI)
    fix j assume j: "lo \<le> int j \<and> int j < hi"
    have "np (fst (snd (for_each (mark_block st ?bsz lo hi) (py_range 0 (countdown_length st)) s2))) ! j
        = np (fst s2) ! j"
    proof (rule for_each_frame[where n = "num_pixels (fst s2)"])
      fix b and t :: rstate
      show "np (fst (snd (mark_block st ?bsz lo hi b t))) ! j = np (fst t) ! j"
        using j by (intro mark_block_span) simp_all
    qed (simp_all add: mark_block_num_pixels)
    then show "np (fst s') ! j = np (fst s2) ! j" by (simp add: m)
  qed
  show ?thesis
    using that[OF b[unfolded e] f[unfolded e2] n1 keep] .
qed

lemma last_day_plain:
  assumes "\<not> use_custom_colors (settings st)"
    and "render_countdown p st s = (None, s')"
    and "day_range st \<noteq> []"
    and "block_span (from_pi (settings st)) (num_pixels (fst s)) (countdown_length st)
           (num_pixels (fst s) div countdown_length st) (last (day_range st)) = (lo, hi)"
  shows "\<exists>l1 k1.
       for_each (draw_day p st (if sin (animation_phase st) \<ge> 0 then 0 else 1)
           (lighten_factor_of (animation_phase st)) (num_pixels (fst s) div countdown_length st))
         (butlast (day_range st)) s = (None, (l1, k1))
       \<and> (\<forall>px. lo \<le> px \<and> px < hi \<and> 0 \<le> px \<and> px < num_pixels (fst s) \<longrightarrow>
            np (fst s') ! nat px
              = np (fst (snd (fill_pixel p st (if sin (animation_phase st) \<ge> 0 then 0 else 1)
                    (lighten_factor_of (animation_phase st)) (last (day_range st)) px
                    (l1, k1 + 2 * nat (px - lo))))) ! nat px)"
proof -
  from last_day_fill[OF assms(2,3,4)] obtain s1 s2 where
    d: "for_each (draw_day p st (if sin (animation_phase st) \<ge> 0 then 0 else 1)
        (lighten_factor_of (animation_phase st)) (num_pixels (fst s) div countdown_length st))
        (butlast (day_range st)) s = (None, s1)"
    and f: "for_each (fill_pixel p st (if sin (animation_phase st) \<ge> 0 then 0 else 1)
        (lighten_factor_of (animation_phase st)) (last (day_range st))) (py_range lo hi) s1
       = (None, s2)"
    and n1: "num_pixels (fst s1) = num_pixels (fst s)"
    and keep: "\<forall>j. lo \<le> int j \<and> int j < hi \<longrightarrow> np (fst s') ! j = np (fst s2) ! j"
    by blast
  obtain l1 k1 where s1: "s1 = (l1, k1)" by (cases s1)
  have "\<forall>px. lo \<le> px \<and> px < hi \<and> 0 \<le> px \<and> px < num_pixels (fst s) \<longrightarrow>
            np (fst s') ! nat px
              = np (fst (snd (fill_pixel p st (if sin (animation_phase st) \<ge> 0 then 0 else 1)
                    (lighten_factor_of (animation_phase st)) (last (day_range st)) px
                    (l1, k1 + 2 * nat (px - lo))))) ! nat px"
  proof (intro allI impI)
    fix px assume h: "lo \<le> px \<and> px < hi \<and> 0 \<le> px \<and> px < num_pixels (fst s)"
    then have a: "np (fst s') ! nat px = np (fst s2) ! nat px" using keep by simp
    have px: "px < num_pixels l1" using h n1 by (simp add: s1)
    from fill_range_plain[OF assms(1), of lo px hi l1 p
        "if sin (animation_phase st) \<ge> 0 then 0 else 1" "lighten_factor_of (animation_phase st)"
        "last (day_range st)" k1] h px
    have "np (fst s2) ! nat px
        = np (fst (snd (fill_pixel p st (if sin (animation_phase st) \<ge> 0 then 0 else 1)
              (lighten_factor_of (animation_phase st)) (last (day_range st)) px
              (l1, k1 + 2 * nat (px - lo))))) ! nat px"
      using f by (simp add: s1)
    with a show "np (fst s') ! nat px
        = np (fst (snd (fill_pixel p st (if sin (animation_phase st) \<ge> 0 then 0 else 1)
              (lighten_factor_of (animation_phase st)) (last (day_range st)) px
              (l1, k1 + 2 * nat (px - lo))))) ! nat px" by simp
  qed
  with d s1 show ?thesis by blast
qed
lemma for_each_rel:
  assumes "\<And>i s t. R s t \<Longrightarrow> fst (f i s) = fst (g i t) \<and> R (snd (f i s)) (snd (g i t))"
    and "R s t"
  shows "fst (for_each f is s) = fst (for_each g is t)
       \<and> R (snd (for_each f is s)) (snd (for_each g is t))"
  using assms(2)
proof (induction "is" arbitrary: s t)
  case Nil
  then show ?case by simp
next
  case (Cons i "is")
  obtain e1 s1 where r1: "f i s = (e1, s1)" by (metis prod.exhaust)
  obtain e2 t1 where r2: "g i t = (e2, t1)" by (metis prod.exhaust)
  from assms(1)[OF Cons.prems, of i] have eq: "e2 = e1" and R1: "R s1 t1"
    by (simp_all add: r1 r2)
  show ?case
  proof (cases e1)
    case None
    then show ?thesis using Cons.IH[OF R1] eq by (simp add: r1 r2)
  next
    case (Some e)
    then show ?thesis using eq R1 by (simp add: r1 r2)
  qed
qed

lemma fill_pixel_custom_rel:
  assumes "use_custom_colors (settings st)"
    and "\<And>a b px c k k'. R (a, k) (b, k') \<Longrightarrow> R (set_pixel a px c, k) (set_pixel b px c, k')"
    and "R s t"
  shows "fst (fill_pixel p1 st fg lf d px s) = fst (fill_pixel p2 st fg lf d px t)
       \<and> R (snd (fill_pixel p1 st fg lf d px s)) (snd (fill_pixel p2 st fg lf d px t))"
proof -
  obtain a k where s: "s = (a, k)" by (cases s)
  obtain b k' where t: "t = (b, k')" by (cases t)
  show ?thesis
    using assms(1,3) assms(2)[of a k b k']
    by (simp add: s t fill_pixel_def Let_def split: sum.splits)
qed

lemma mark_block_rel:
  assumes "\<And>a b px c k k'. R (a, k) (b, k') \<Longrightarrow> R (set_pixel a px c, k) (set_pixel b px c, k')"
    and "\<And>s t. R s t \<Longrightarrow> num_pixels (fst s) = num_pixels (fst t)"
    and "R s t"
  shows "fst (mark_block st bsz lo hi b s) = fst (mark_block st bsz lo hi b t)
       \<and> R (snd (mark_block st bsz lo hi b s)) (snd (mark_block st bsz lo hi b t))"
proof -
  obtain a k where s: "s = (a, k)" by (cases s)
  obtain c k' where t: "t = (c, k')" by (cases t)
  have n: "num_pixels a = num_pixels c" using assms(2)[OF assms(3)] by (simp add: s t)
  show ?thesis
    using assms(3) assms(1)[of a k c k']
    by (simp add: s t mark_block_def Let_def n split: sum.splits)
qed

lemma draw_day_custom_rel:
  assumes "use_custom_colors (settings st)"
    and "\<And>a b px c k k'. R (a, k) (b, k') \<Longrightarrow> R (set_pixel a px c, k) (set_pixel b px c, k')"
    and "\<And>s t. R s t \<Longrightarrow> num_pixels (fst s) = num_pixels (fst t)"
    and "R s t"
  shows "fst (draw_day p1 st fg lf bsz d s) = fst (draw_day p2 st fg lf bsz d t)
       \<and> R (snd (draw_day p1 st fg lf bsz d s)) (snd (draw_day p2 st fg lf bsz d t))"
proof -
  have n: "num_pixels (fst t) = num_pixels (fst s)" using assms(3)[OF assms(4)] by simp
  obtain lo hi where sp: "block_span (from_pi (settings st)) (num_pixels (fst s))
      (countdown_length st) bsz d = (lo, hi)" by (metis prod.exhaust)
  obtain e1 s1 where f1: "for_each (fill_pixel p1 st fg lf d) (py_range lo hi) s = (e1, s1)"
    by (metis prod.exhaust)
  obtain e2 t1 where f2: "for_each (fill_pixel p2 st fg lf d) (py_range lo hi) t = (e2, t1)"
    by (metis prod.exhaust)
  have "fst (for_each (fill_pixel p1 st fg lf d) (py_range lo hi) s)
          = fst (for_each (fill_pixel p2 st fg lf d) (py_range lo hi) t)
      \<and> R (snd (for_each (fill_pixel p1 st fg lf d) (py_range lo hi) s))
          (snd (for_each (fill_pixel p2 st fg lf d) (py_range lo hi) t))"
    by (rule for_each_rel[where R = R, OF _ assms(4)])
       (rule fill_pixel_custom_rel[where R = R, OF assms(1) assms(2)], assumption+)
  then have e: "e2 = e1" and R1: "R s1 t1" by (simp_all add: f1 f2)
  have m: "fst (for_each (mark_block st bsz lo hi) (py_range 0 (countdown_length st)) s1)
          = fst (for_each (mark_block st bsz lo hi) (py_range 0 (countdown_length st)) t1)
      \<and> R (snd (for_each (mark_block st bsz lo hi) (py_range 0 (countdown_length st)) s1))
          (snd (for_each (mark_block st bsz lo hi) (py_range 0 (countdown_length st)) t1))"
    by (rule for_each_rel[where R = R, OF _ R1])
       (rule mark_block_rel[where R = R, OF assms(2) assms(3)], assumption+)
  show ?thesis
    using m R1 by (cases e1) (simp_all add: draw_day_def sp n f1 f2 e)
qed

lemma render_countdown_custom_rel:
  assumes "use_custom_colors (settings st)"
    and "\<And>a b px c k k'. R (a, k) (b, k') \<Longrightarrow> R (set_pixel a px c, k) (set_pixel b px c, k')"
    and "\<And>s t. R s t \<Longrightarrow> num_pixels (fst s) = num_pixels (fst t)"
    and "R s t"
  shows "fst (render_countdown p1 st s) = fst (render_countdown p2 st t)
       \<and> R (snd (render_countdown p1 st s)) (snd (render_countdown p2 st t))"
proof (cases "countdown_length st = 0")
  case True
  then show ?thesis using assms(4) by (simp add: render_countdown_def Let_def)
next
  case False
  have n: "num_pixels (fst t) = num_pixels (fst s)" using assms(3)[OF assms(4)] by simp
  let ?fg = "if sin (animation_phase st) \<ge> 0 then 0 else (1::int)"
  let ?lf = "lighten_factor_of (animation_phase st)"
  let ?bsz = "num_pixels (fst s) div countdown_length st"
  have "fst (for_each (draw_day p1 st ?fg ?lf ?bsz) (day_range st) s)
          = fst (for_each (draw_day p2 st ?fg ?lf ?bsz) (day_range st) t)
      \<and> R (snd (for_each (draw_day p1 st ?fg ?lf ?bsz) (day_range st) s))
          (snd (for_each (draw_day p2 st ?fg ?lf ?bsz) (day_range st) t))"
    by (rule for_each_rel[where R = R, OF _ assms(4)])
       (rule draw_day_custom_rel[where R = R, OF assms(1) assms(2) assms(3)], assumption+)
  then show ?thesis using False by (simp add: render_countdown_def Let_def n)
qed

lemma render_countdown_written:
  assumes "use_custom_colors (settings st)" and "length (np la) = length (np lb)"
  shows "fst (render_countdown p1 st (la, ka)) = fst (render_countdown p2 st (lb, kb))
       \<and> length (np (fst (snd (render_countdown p1 st (la, ka)))))
           = length (np (fst (snd (render_countdown p2 st (lb, kb)))))
       \<and> (\<forall>i < length (np la).
             np (fst (snd (render_countdown p1 st (la, ka)))) ! i
               = np (fst (snd (render_countdown p2 st (lb, kb)))) ! i
           \<or> (np (fst (snd (render_countdown p1 st (la, ka)))) ! i = np la ! i
              \<and> np (fst (snd (render_countdown p2 st (lb, kb)))) ! i = np lb ! i))"
proof -
  define R :: "rstate \<Rightarrow> rstate \<Rightarrow> bool" where
    "R = (\<lambda>s t. length (np (fst s)) = length (np la) \<and> length (np (fst t)) = length (np la)
            \<and> (\<forall>i < length (np la). np (fst s) ! i = np (fst t) ! i
                  \<or> (np (fst s) ! i = np la ! i \<and> np (fst t) ! i = np lb ! i)))"
  have A1: "\<And>a b px c k k'. R (a, k) (b, k') \<Longrightarrow> R (set_pixel a px c, k) (set_pixel b px c, k')"
  proof -
    fix a b :: led_controller and px :: int and c :: rgb and k k' :: nat
    assume r: "R (a, k) (b, k')"
    then have la: "length (np a) = length (np la)" and lb: "length (np b) = length (np la)"
      by (simp_all add: R_def)
    have "\<forall>i < length (np la). np (set_pixel a px c) ! i = np (set_pixel b px c) ! i
                  \<or> (np (set_pixel a px c) ! i = np la ! i \<and> np (set_pixel b px c) ! i = np lb ! i)"
    proof (intro allI impI)
      fix i assume i: "i < length (np la)"
      have ia: "i < length (np a)" and ib: "i < length (np b)" using i la lb by simp_all
      from r i have "np a ! i = np b ! i \<or> (np a ! i = np la ! i \<and> np b ! i = np lb ! i)"
        by (simp add: R_def)
      then show "np (set_pixel a px c) ! i = np (set_pixel b px c) ! i
                  \<or> (np (set_pixel a px c) ! i = np la ! i \<and> np (set_pixel b px c) ! i = np lb ! i)"
        by (simp add: nth_set_pixel[OF ia] nth_set_pixel[OF ib])
    qed
    then show "R (set_pixel a px c, k) (set_pixel b px c, k')"
      using la lb by (simp add: R_def)
  qed
  have A2: "\<And>s t. R s t \<Longrightarrow> num_pixels (fst s) = num_pixels (fst t)"
    by (simp add: R_def num_pixels_def)
  have R0: "R (la, ka) (lb, kb)" using assms(2) by (simp add: R_def)
  from render_countdown_custom_rel[where R = R, OF assms(1) A1 A2 R0, of p1 p2]
  show ?thesis by (simp add: R_def)
qed
lemma render_countdown_np:
  assumes "days_remaining st \<le> countdown_length st"
  shows "fst (render p st s) = fst (render_countdown p st s)
       \<and> np (fst (snd (snd (render p st s)))) = np (fst (snd (render_countdown p st s)))"
proof -
  obtain e l' k' where r: "render_countdown p st s = (e, (l', k'))" by (metis prod.exhaust)
  show ?thesis
    using assms by (cases e) (simp_all add: render_def r write_strip_def)
qed

lemma fill_pixel_plain_nth:
  assumes "\<not> use_custom_colors (settings st)" and "0 \<le> px" and "px < num_pixels l"
  shows "np (fst (snd (fill_pixel p st fg lf d px (l, k)))) ! nat px =
     (case np l ! nat px of (r, g, b) \<Rightarrow>
        if is_flashing st \<and> flashes fg (primary_block st d)
        then lighten
               (clamp (of_int (r + (countdown_length st + 1 - d) * fst (choice_sign p k))) 0 255,
                clamp (of_int (g - (countdown_length st + 1 - d) * fst (choice_sign p k))) 0 255,
                clamp (of_int (b + (countdown_length st + 1 - d) * fst (choice_sign p (Suc k)))) 0 255)
               lf
        else (clamp (of_int (r + (countdown_length st + 1 - d) * fst (choice_sign p k))) 0 255,
              clamp (of_int (g - (countdown_length st + 1 - d) * fst (choice_sign p k))) 0 255,
              clamp (of_int (b + (countdown_length st + 1 - d) * fst (choice_sign p (Suc k)))) 0 255))"
proof -
  have j: "nat px < length (np l)" using assms(2,3) by (simp add: num_pixels_def)
  have g: "get_pixel l px = np l ! nat px" using assms(2,3) by (simp add: get_pixel_def)
  show ?thesis
    using assms(2) by (simp add: fill_pixel_plain[OF assms(1)] nth_set_pixel[OF j] g)
qed
section \<open>Rendering: a function of what\<close>

text \<open>
  C2, as the code has it. The pixel buffer that \<open>render\<close> leaves is not a function of
  the CountdownState alone.

  \<^item> In breathing mode it is: two renders with the same state on strips of the same length
    leave the same buffer and show the same pixels, whatever the prior contents and the
    random draws.
  \<^item> With custom colours the result does not depend on the random draws: from the same
    prior buffer, two renders raise the same exception or none, call the same methods and
    leave the same controller.
  \<^item> With custom colours, from two prior buffers of the same length, two renders raise
    the same exception or none and agree on every pixel, except where both keep the
    colour the pixel had before.
  \<^item> In countdown mode every pixel that is outside the spans of the iterated days and, with
    markers enabled, is not the start of a block keeps the colour it had before.
  \<^item> In countdown mode without custom colours, when the render completes, every pixel of
    the span of the day drawn last is the colour \<open>(r, g, b)\<close> it had after the days before
    were drawn, changed to \<open>(r + v * c1, g - v * c1, b + v * c2)\<close> with
    \<open>v = countdown_length + 1 - day\<close> and \<open>c1\<close>, \<open>c2\<close> the next two random signs, each
    channel clamped to \<open>0..255\<close>, and lightened when the block flashes.
\<close>

theorem render_depends_on:
  "(days_remaining st > countdown_length st \<and> length (np la) = length (np lb)
      \<longrightarrow> np (fst (snd (snd (render pa st (la, ka))))) = np (fst (snd (snd (render pb st (lb, kb)))))
        \<and> shown (fst (snd (snd (render pa st (la, ka)))))
            = shown (fst (snd (snd (render pb st (lb, kb))))))
   \<and> (use_custom_colors (settings st)
      \<longrightarrow> fst (render pa st (l, ka)) = fst (render pb st (l, kb))
        \<and> fst (snd (render pa st (l, ka))) = fst (snd (render pb st (l, kb)))
        \<and> fst (snd (snd (render pa st (l, ka)))) = fst (snd (snd (render pb st (l, kb)))))
   \<and> (use_custom_colors (settings st) \<and> length (np la) = length (np lb)
      \<longrightarrow> fst (render pa st (la, ka)) = fst (render pb st (lb, kb))
        \<and> (\<forall>i < length (np la).
              np (fst (snd (snd (render pa st (la, ka))))) ! i
                = np (fst (snd (snd (render pb st (lb, kb))))) ! i
            \<or> (np (fst (snd (snd (render pa st (la, ka))))) ! i = np la ! i
               \<and> np (fst (snd (snd (render pb st (lb, kb))))) ! i = np lb ! i)))
   \<and> (days_remaining st \<le> countdown_length st
      \<longrightarrow> (\<forall>j. (\<forall>d \<in> set (day_range st).
                  \<not> (fst (block_span (from_pi (settings st)) (num_pixels l) (countdown_length st)
                           (num_pixels l div countdown_length st) d) \<le> int j
                     \<and> int j < snd (block_span (from_pi (settings st)) (num_pixels l)
                           (countdown_length st) (num_pixels l div countdown_length st) d)))
               \<and> (with_marker (settings st) \<longrightarrow>
                    (\<forall>b \<in> set (py_range 0 (countdown_length st)).
                       block_start (from_pi (settings st)) (num_pixels l)
                         (num_pixels l div countdown_length st) b \<noteq> int j))
               \<longrightarrow> np (fst (snd (snd (render pa st (l, ka))))) ! j = np l ! j))
   \<and> (\<not> use_custom_colors (settings st) \<and> days_remaining st \<le> countdown_length st
        \<and> fst (render pa st (l, ka)) = None \<and> day_range st \<noteq> []
      \<longrightarrow> (\<exists>l1 k1.
            for_each (draw_day pa st (if sin (animation_phase st) \<ge> 0 then 0 else 1)
                (lighten_factor_of (animation_phase st)) (num_pixels l div countdown_length st))
              (butlast (day_range st)) (l, ka) = (None, (l1, k1))
            \<and> (\<forall>px lo hi.
                  block_span (from_pi (settings st)) (num_pixels l) (countdown_length st)
                    (num_pixels l div countdown_length st) (last (day_range st)) = (lo, hi)
                  \<and> lo \<le> px \<and> px < hi \<and> 0 \<le> px \<and> px < num_pixels l
                  \<longrightarrow> np (fst (snd (snd (render pa st (l, ka))))) ! nat px =
                      (case np l1 ! nat px of (r, g, b) \<Rightarrow>
                         if is_flashing st
                            \<and> flashes (if sin (animation_phase st) \<ge> 0 then 0 else 1)
                                (primary_block st (last (day_range st)))
                         then lighten
                                (clamp (of_int (r + (countdown_length st + 1 - last (day_range st))
                                     * fst (choice_sign pa (k1 + 2 * nat (px - lo))))) 0 255,
                                 clamp (of_int (g - (countdown_length st + 1 - last (day_range st))
                                     * fst (choice_sign pa (k1 + 2 * nat (px - lo))))) 0 255,
                                 clamp (of_int (b + (countdown_length st + 1 - last (day_range st))
                                     * fst (choice_sign pa (Suc (k1 + 2 * nat (px - lo)))))) 0 255)
                                (lighten_factor_of (animation_phase st))
                         else (clamp (of_int (r + (countdown_length st + 1 - last (day_range st))
                                   * fst (choice_sign pa (k1 + 2 * nat (px - lo))))) 0 255,
                               clamp (of_int (g - (countdown_length st + 1 - last (day_range st))
                                   * fst (choice_sign pa (k1 + 2 * nat (px - lo))))) 0 255,
                               clamp (of_int (b + (countdown_length st + 1 - last (day_range st))
                                   * fst (choice_sign pa (Suc (k1 + 2 * nat (px - lo)))))) 0 255)))))"
  (is "?A \<and> ?B \<and> ?C \<and> ?D \<and> ?E")
proof -
  have A: ?A
  proof (intro conjI impI)
    assume a: "days_remaining st > countdown_length st \<and> length (np la) = length (np lb)"
    then have b: "np (render_breathing st la) = np (render_breathing st lb)"
      by (intro render_breathing_buffer) simp
    show "np (fst (snd (snd (render pa st (la, ka))))) = np (fst (snd (snd (render pb st (lb, kb)))))"
      using a b by (simp add: render_def write_strip_def)
    show "shown (fst (snd (snd (render pa st (la, ka)))))
        = shown (fst (snd (snd (render pb st (lb, kb)))))"
      using a b by (simp add: render_def write_strip_def)
  qed
  have B: ?B
  proof (intro conjI impI)
    assume c: "use_custom_colors (settings st)"
    obtain ea la' ka' where ra: "render_countdown pa st (l, ka) = (ea, (la', ka'))"
      by (metis prod.exhaust)
    obtain eb lb' kb' where rb: "render_countdown pb st (l, kb) = (eb, (lb', kb'))"
      by (metis prod.exhaust)
    from render_countdown_custom_agree[OF c, of pa l ka pb kb]
    have "eb = ea" "lb' = la'" by (simp_all add: ra rb)
    then have rb': "render_countdown pb st (l, kb) = (ea, (la', kb'))" using rb by simp
    show "fst (render pa st (l, ka)) = fst (render pb st (l, kb))"
      by (cases ea) (simp_all add: render_def ra rb')
    show "fst (snd (render pa st (l, ka))) = fst (snd (render pb st (l, kb)))"
      by (cases ea) (simp_all add: render_def ra rb')
    show "fst (snd (snd (render pa st (l, ka)))) = fst (snd (snd (render pb st (l, kb))))"
      by (cases ea) (simp_all add: render_def ra rb')
  qed
  have C: ?C
  proof (intro impI)
    assume c: "use_custom_colors (settings st) \<and> length (np la) = length (np lb)"
    show "fst (render pa st (la, ka)) = fst (render pb st (lb, kb))
        \<and> (\<forall>i < length (np la).
              np (fst (snd (snd (render pa st (la, ka))))) ! i
                = np (fst (snd (snd (render pb st (lb, kb))))) ! i
            \<or> (np (fst (snd (snd (render pa st (la, ka))))) ! i = np la ! i
               \<and> np (fst (snd (snd (render pb st (lb, kb))))) ! i = np lb ! i))"
    proof (cases "days_remaining st \<le> countdown_length st")
      case True
      note w = render_countdown_written[OF c[THEN conjunct1] c[THEN conjunct2], of pa ka pb kb]
      show ?thesis
        unfolding render_countdown_np[OF True, THEN conjunct1]
          render_countdown_np[OF True, THEN conjunct2]
        using w by blast
    next
      case False
      have b: "np (render_breathing st la) = np (render_breathing st lb)"
        using c by (intro render_breathing_buffer) simp
      show ?thesis using False b by (simp add: render_def write_strip_def)
    qed
  qed
  have D: ?D
  proof (intro impI allI)
    fix j
    assume m: "days_remaining st \<le> countdown_length st"
      and h: "(\<forall>d \<in> set (day_range st).
                  \<not> (fst (block_span (from_pi (settings st)) (num_pixels l) (countdown_length st)
                           (num_pixels l div countdown_length st) d) \<le> int j
                     \<and> int j < snd (block_span (from_pi (settings st)) (num_pixels l)
                           (countdown_length st) (num_pixels l div countdown_length st) d)))
               \<and> (with_marker (settings st) \<longrightarrow>
                    (\<forall>b \<in> set (py_range 0 (countdown_length st)).
                       block_start (from_pi (settings st)) (num_pixels l)
                         (num_pixels l div countdown_length st) b \<noteq> int j))"
    have "np (fst (snd (render_countdown pa st (l, ka)))) ! j = np (fst (l, ka)) ! j"
      by (rule render_countdown_frame) (use h in simp_all)
    then show "np (fst (snd (snd (render pa st (l, ka))))) ! j = np l ! j"
      by (simp add: render_countdown_np[OF m, THEN conjunct2])
  qed
  have E: ?E
  proof (intro impI)
    assume h: "\<not> use_custom_colors (settings st) \<and> days_remaining st \<le> countdown_length st
        \<and> fst (render pa st (l, ka)) = None \<and> day_range st \<noteq> []"
    then have nc: "\<not> use_custom_colors (settings st)"
      and m: "days_remaining st \<le> countdown_length st"
      and ok: "fst (render pa st (l, ka)) = None" and ne: "day_range st \<noteq> []" by simp_all
    let ?fg = "if sin (animation_phase st) \<ge> 0 then 0 else (1::int)"
    let ?lf = "lighten_factor_of (animation_phase st)"
    let ?d = "last (day_range st)"
    obtain s' where rc: "render_countdown pa st (l, ka) = (None, s')"
      using ok render_countdown_np[OF m, of pa "(l, ka)"] by (metis prod.collapse)
    have res: "np (fst (snd (snd (render pa st (l, ka))))) = np (fst s')"
      by (simp add: render_countdown_np[OF m, THEN conjunct2] rc)
    obtain lo0 hi0 where sp: "block_span (from_pi (settings st)) (num_pixels (fst (l, ka)))
        (countdown_length st) (num_pixels (fst (l, ka)) div countdown_length st) ?d = (lo0, hi0)"
      by (metis prod.exhaust)
    from last_day_plain[OF nc rc ne sp] obtain l1 k1 where
      d: "for_each (draw_day pa st ?fg ?lf (num_pixels (fst (l, ka)) div countdown_length st))
            (butlast (day_range st)) (l, ka) = (None, (l1, k1))"
      and v: "\<forall>px. lo0 \<le> px \<and> px < hi0 \<and> 0 \<le> px \<and> px < num_pixels (fst (l, ka)) \<longrightarrow>
            np (fst s') ! nat px
              = np (fst (snd (fill_pixel pa st ?fg ?lf ?d px (l1, k1 + 2 * nat (px - lo0))))) ! nat px"
      by blast
    have n1: "num_pixels l1 = num_pixels l"
      using for_each_num_pixels[of "draw_day pa st ?fg ?lf (num_pixels l div countdown_length st)"
          "butlast (day_range st)" "(l, ka)", OF draw_day_num_pixels] d by simp
    show "\<exists>l1 k1.
            for_each (draw_day pa st ?fg ?lf (num_pixels l div countdown_length st))
              (butlast (day_range st)) (l, ka) = (None, (l1, k1))
            \<and> (\<forall>px lo hi.
                  block_span (from_pi (settings st)) (num_pixels l) (countdown_length st)
                    (num_pixels l div countdown_length st) ?d = (lo, hi)
                  \<and> lo \<le> px \<and> px < hi \<and> 0 \<le> px \<and> px < num_pixels l
                  \<longrightarrow> np (fst (snd (snd (render pa st (l, ka))))) ! nat px =
                      (case np l1 ! nat px of (r, g, b) \<Rightarrow>
                         if is_flashing st \<and> flashes ?fg (primary_block st ?d)
                         then lighten
                                (clamp (of_int (r + (countdown_length st + 1 - ?d)
                                     * fst (choice_sign pa (k1 + 2 * nat (px - lo))))) 0 255,
                                 clamp (of_int (g - (countdown_length st + 1 - ?d)
                                     * fst (choice_sign pa (k1 + 2 * nat (px - lo))))) 0 255,
                                 clamp (of_int (b + (countdown_length st + 1 - ?d)
                                     * fst (choice_sign pa (Suc (k1 + 2 * nat (px - lo)))))) 0 255)
                                ?lf
                         else (clamp (of_int (r + (countdown_length st + 1 - ?d)
                                   * fst (choice_sign pa (k1 + 2 * nat (px - lo))))) 0 255,
                               clamp (of_int (g - (countdown_length st + 1 - ?d)
                                   * fst (choice_sign pa (k1 + 2 * nat (px - lo))))) 0 255,
                               clamp (of_int (b + (countdown_length st + 1 - ?d)
                                   * fst (choice_sign pa (Suc (k1 + 2 * nat (px - lo)))))) 0 255)))"
    proof (intro exI[of _ l1] exI[of _ k1] conjI allI impI)
      show "for_each (draw_day pa st ?fg ?lf (num_pixels l div countdown_length st))
              (butlast (day_range st)) (l, ka) = (None, (l1, k1))"
        using d by simp
    next
      fix px lo hi
      assume g: "block_span (from_pi (settings st)) (num_pixels l) (countdown_length st)
                    (num_pixels l div countdown_length st) ?d = (lo, hi)
                  \<and> lo \<le> px \<and> px < hi \<and> 0 \<le> px \<and> px < num_pixels l"
      then have lo: "lo0 = lo" and hi: "hi0 = hi" using sp by simp_all
      have px0: "0 \<le> px" and px1: "px < num_pixels l1" using g n1 by simp_all
      from v g have "np (fst s') ! nat px
          = np (fst (snd (fill_pixel pa st ?fg ?lf ?d px (l1, k1 + 2 * nat (px - lo))))) ! nat px"
        by (simp add: lo hi)
      then show "np (fst (snd (snd (render pa st (l, ka))))) ! nat px =
                      (case np l1 ! nat px of (r, g, b) \<Rightarrow>
                         if is_flashing st \<and> flashes ?fg (primary_block st ?d)
                         then lighten
                                (clamp (of_int (r + (countdown_length st + 1 - ?d)
                                     * fst (choice_sign pa (k1 + 2 * nat (px - lo))))) 0 255,
                                 clamp (of_int (g - (countdown_length st + 1 - ?d)
                                     * fst (choice_sign pa (k1 + 2 * nat (px - lo))))) 0 255,
                                 clamp (of_int (b + (countdown_length st + 1 - ?d)
                                     * fst (choice_sign pa (Suc (k1 + 2 * nat (px - lo)))))) 0 255)
                                ?lf
                         else (clamp (of_int (r + (countdown_length st + 1 - ?d)
                                   * fst (choice_sign pa (k1 + 2 * nat (px - lo))))) 0 255,
                               clamp (of_int (g - (countdown_length st + 1 - ?d)
                                   * fst (choice_sign pa (k1 + 2 * nat (px - lo))))) 0 255,
                               clamp (of_int (b + (countdown_length st + 1 - ?d)
                                   * fst (choice_sign pa (Suc (k1 + 2 * nat (px - lo)))))) 0 255))"
        unfolding res by (simp only: fill_pixel_plain_nth[OF nc px0 px1])
    qed
  qed
  from A B C D E show ?thesis by (intro conjI)
qed

theorem render_depends_on_witness:
  "days_remaining st_early > countdown_length st_early
   \<and> length (np strip_off) = length (np strip_lit)
   \<and> np (fst (snd (snd (render pico st_early (strip_off, 0)))))
       = np (fst (snd (snd (render pico st_early (strip_lit, 5)))))
   \<and> use_custom_colors (settings st_three)
   \<and> fst (snd (snd (render pico st_three (strip_off, 0))))
       = fst (snd (snd (render (pico\<lparr>draws := \<lambda>k. 0\<rparr>) st_three (strip_off, 9))))
   \<and> fst (render pico st_three (strip_off, 0)) = fst (render pico st_three (strip_lit, 0))
   \<and> \<not> use_custom_colors (settings st_plain)
   \<and> days_remaining st_plain \<le> countdown_length st_plain
   \<and> day_range st_plain = [3]
   \<and> block_span False 6 3 (6 div 3) 3 = (4, 6)
   \<and> fst (render pico st_plain (strip_grey, 0)) = None
   \<and> np (fst (snd (snd (render pico st_plain (strip_grey, 0))))) ! 1 = (100, 100, 100)
   \<and> np (fst (snd (snd (render pico st_plain (strip_grey, 0))))) ! nat 4 = (116, 118, 118)"
proof -
  have h1: "days_remaining st_early > countdown_length st_early"
    by (simp add: st_early_def st_three_def)
  have h2: "length (np strip_off) = length (np strip_lit)"
    by (simp add: strip_lit_def)
  have h3: "use_custom_colors (settings st_three)"
    by (simp add: st_three_def stg_three_def stg_ten_def)
  have a: "np (fst (snd (snd (render pico st_early (strip_off, 0)))))
       = np (fst (snd (snd (render pico st_early (strip_lit, 5)))))"
    using render_depends_on[where st = st_early and la = strip_off and lb = strip_lit
        and pa = pico and pb = pico and ka = 0 and kb = 5] h1 h2 by blast
  have b: "fst (snd (snd (render pico st_three (strip_off, 0))))
       = fst (snd (snd (render (pico\<lparr>draws := \<lambda>k. 0\<rparr>) st_three (strip_off, 9))))"
    using render_depends_on[where st = st_three and l = strip_off
        and pa = pico and pb = "pico\<lparr>draws := \<lambda>k. 0\<rparr>" and ka = 0 and kb = 9] h3 by blast
  have c: "fst (render pico st_three (strip_off, 0)) = fst (render pico st_three (strip_lit, 0))"
    using render_depends_on[where st = st_three and la = strip_off and lb = strip_lit
        and pa = pico and pb = pico and ka = 0 and kb = 0] h3 h2 by blast
  have sp: "block_span False 6 3 (6 div 3) 3 = (4, 6)" by (simp add: block_span_def Let_def)
  have ok: "fst (render pico st_plain (strip_grey, 0)) = None" by (simp add: render_plain_grey)
  have fr: "(\<forall>d \<in> set (day_range st_plain).
                  \<not> (fst (block_span (from_pi (settings st_plain)) (num_pixels strip_grey)
                           (countdown_length st_plain)
                           (num_pixels strip_grey div countdown_length st_plain) d) \<le> int 1
                     \<and> int 1 < snd (block_span (from_pi (settings st_plain)) (num_pixels strip_grey)
                           (countdown_length st_plain)
                           (num_pixels strip_grey div countdown_length st_plain) d)))
               \<and> (with_marker (settings st_plain) \<longrightarrow>
                    (\<forall>b \<in> set (py_range 0 (countdown_length st_plain)).
                       block_start (from_pi (settings st_plain)) (num_pixels strip_grey)
                         (num_pixels strip_grey div countdown_length st_plain) b \<noteq> int 1))"
    using sp by (auto simp: plain_facts py_range_def block_start_def; presburger)
  note D = render_depends_on[where st = st_plain and l = strip_grey and pa = pico and ka = 0,
      THEN conjunct2, THEN conjunct2, THEN conjunct2, THEN conjunct1, THEN mp, OF plain_facts(2),
      THEN spec, THEN mp, OF fr]
  have d: "np (fst (snd (snd (render pico st_plain (strip_grey, 0))))) ! 1 = (100, 100, 100)"
    using D by (simp add: plain_facts)
  have hy: "\<not> use_custom_colors (settings st_plain)
      \<and> days_remaining st_plain \<le> countdown_length st_plain
      \<and> fst (render pico st_plain (strip_grey, 0)) = None \<and> day_range st_plain \<noteq> []"
    using plain_facts(1,2) ok by (simp add: plain_facts(3))
  note E = render_depends_on[where st = st_plain and l = strip_grey and pa = pico and ka = 0,
      THEN conjunct2, THEN conjunct2, THEN conjunct2, THEN conjunct2, THEN mp, OF hy]
  then obtain l1 k1 where
    e1: "for_each (draw_day pico st_plain (if sin (animation_phase st_plain) \<ge> 0 then 0 else 1)
            (lighten_factor_of (animation_phase st_plain))
            (num_pixels strip_grey div countdown_length st_plain))
          (butlast (day_range st_plain)) (strip_grey, 0) = (None, (l1, k1))"
    and e2: "\<forall>px lo hi.
        block_span (from_pi (settings st_plain)) (num_pixels strip_grey) (countdown_length st_plain)
          (num_pixels strip_grey div countdown_length st_plain) (last (day_range st_plain)) = (lo, hi)
        \<and> lo \<le> px \<and> px < hi \<and> 0 \<le> px \<and> px < num_pixels strip_grey
        \<longrightarrow> np (fst (snd (snd (render pico st_plain (strip_grey, 0))))) ! nat px =
            (case np l1 ! nat px of (r, g, b) \<Rightarrow>
               if is_flashing st_plain
                  \<and> flashes (if sin (animation_phase st_plain) \<ge> 0 then 0 else 1)
                      (primary_block st_plain (last (day_range st_plain)))
               then lighten
                      (clamp (of_int (r + (countdown_length st_plain + 1 - last (day_range st_plain))
                           * fst (choice_sign pico (k1 + 2 * nat (px - lo))))) 0 255,
                       clamp (of_int (g - (countdown_length st_plain + 1 - last (day_range st_plain))
                           * fst (choice_sign pico (k1 + 2 * nat (px - lo))))) 0 255,
                       clamp (of_int (b + (countdown_length st_plain + 1 - last (day_range st_plain))
                           * fst (choice_sign pico (Suc (k1 + 2 * nat (px - lo)))))) 0 255)
                      (lighten_factor_of (animation_phase st_plain))
               else (clamp (of_int (r + (countdown_length st_plain + 1 - last (day_range st_plain))
                         * fst (choice_sign pico (k1 + 2 * nat (px - lo))))) 0 255,
                     clamp (of_int (g - (countdown_length st_plain + 1 - last (day_range st_plain))
                         * fst (choice_sign pico (k1 + 2 * nat (px - lo))))) 0 255,
                     clamp (of_int (b + (countdown_length st_plain + 1 - last (day_range st_plain))
                         * fst (choice_sign pico (Suc (k1 + 2 * nat (px - lo)))))) 0 255))"
    by blast
  from e1 have l1: "l1 = strip_grey" and k1: "k1 = 0" by (simp_all add: plain_facts(3))
  have g: "block_span (from_pi (settings st_plain)) (num_pixels strip_grey) (countdown_length st_plain)
          (num_pixels strip_grey div countdown_length st_plain) (last (day_range st_plain)) = (4, 6)
        \<and> (4::int) \<le> 4 \<and> (4::int) < 6 \<and> (0::int) \<le> 4 \<and> 4 < num_pixels strip_grey"
    using sp by (simp add: plain_facts)
  note e3 = e2[THEN spec, THEN spec, THEN spec, THEN mp, OF g]
  have e: "np (fst (snd (snd (render pico st_plain (strip_grey, 0))))) ! nat 4 = (116, 118, 118)"
    unfolding e3 l1 k1
    by (simp add: plain_facts flashes_def choice_sign_def pico_def lighten_def clamp_def
        trunc_def eval_nat_numeral)
  from h1 h2 a h3 b c plain_facts(1,2,3) sp ok d e show ?thesis by (intro conjI)
qed

text \<open>The claim as the spec states it fails: the same CountdownState rendered in countdown
  mode onto two strips that differ in pixel 1, which no block and no marker covers,
  leaves two different buffers; and the same CountdownState without custom colours
  rendered onto the same strip with two different sequences of random draws leaves two
  different buffers.\<close>

theorem render_keeps_prior_pixel:
  "np strip_off ! 1 = (0, 0, 0) \<and> np strip_lit ! 1 = (9, 9, 9)
   \<and> np (fst (snd (snd (render pico st_three (strip_off, 0))))) ! 1 = (0, 0, 0)
   \<and> np (fst (snd (snd (render pico st_three (strip_lit, 0))))) ! 1 = (9, 9, 9)
   \<and> np (fst (snd (snd (render pico st_three (strip_off, 0)))))
       \<noteq> np (fst (snd (snd (render pico st_three (strip_lit, 0)))))
   \<and> np (fst (snd (snd (render pico st_plain (strip_grey, 0))))) ! 4 = (116, 118, 118)
   \<and> np (fst (snd (snd (render (pico\<lparr>draws := \<lambda>k. 0\<rparr>) st_plain (strip_grey, 0))))) ! 4
       = (116, 118, 116)
   \<and> np (fst (snd (snd (render pico st_plain (strip_grey, 0)))))
       \<noteq> np (fst (snd (snd (render (pico\<lparr>draws := \<lambda>k. 0\<rparr>) st_plain (strip_grey, 0)))))"
  unfolding render_three_off render_three_lit render_plain_grey render_plain_grey_zero
  by (simp add: strip_off_def strip_lit_def LEDStripController_def COLOR_OFF_def
      eval_nat_numeral)
section \<open>Markers\<close>













end
